theory Spec2Isabelle
  imports Main
begin

text \<open>
  The request dispatcher of the Kyo proxy, in both of its entry points: the request listener
  and the metrics listener of index.js (HTTP/2, one worker per processor) and
  \<^verbatim>\<open>createBareHandler\<close> of server.js (one process). A handler is a function of the state
  (the two cache tiers and a log of what the request has done) that returns the new state
  and, where the JavaScript can throw, an error or a value. The collaborators (URL parsing,
  the tunnel adapter, the headless browser, the outbound fetch, the text decoders, Redis
  failures, the static middleware, the metrics registry and the clock) are the fields of an
  environment, given anew with each request.
\<close>

section \<open>Strings and the two regular expressions\<close>

text \<open>
  A JavaScript string is modelled as a \<^typ>\<open>string\<close>: one \<^typ>\<open>char\<close> per code unit.
  The code only ever compares code units with ASCII characters, so the 8-bit alphabet of
  \<^typ>\<open>char\<close> is enough to follow every test the handlers make.
\<close>

definition startsWith :: "string \<Rightarrow> string \<Rightarrow> bool" where
  "startsWith s p = (take (length p) s = p)"

fun includes_str :: "string \<Rightarrow> string \<Rightarrow> bool" where
  "includes_str [] p = (p = [])"
| "includes_str (c # cs) p = (startsWith (c # cs) p \<or> includes_str cs p)"

text \<open>
  The \<^verbatim>\<open>i\<close> flag of a regular expression without the \<^verbatim>\<open>u\<close> flag folds only the
  ASCII letters onto the letters of the pattern.
\<close>

definition lower_ascii :: "char \<Rightarrow> char" where
  "lower_ascii c =
     (let n = (of_char c :: nat) in if 65 \<le> n \<and> n \<le> 90 then char_of (n + 32) else c)"

definition startsWith_ci :: "string \<Rightarrow> string \<Rightarrow> bool" where
  "startsWith_ci s p = (map lower_ascii (take (length p) s) = p)"

text \<open>\<^verbatim>\<open>String.prototype.toLowerCase\<close> on code units below 256.\<close>

definition toLowerCase_char :: "char \<Rightarrow> char" where
  "toLowerCase_char c =
     (let n = (of_char c :: nat) in
      if (65 \<le> n \<and> n \<le> 90) \<or> (192 \<le> n \<and> n \<le> 222 \<and> n \<noteq> 215)
      then char_of (n + 32) else c)"

definition toLowerCase :: "string \<Rightarrow> string" where
  "toLowerCase s = map toLowerCase_char s"

subsection \<open>\<^verbatim>\<open>/<meta[^>]+charset=[^>]+>/i\<close>\<close>

definition meta_utf8 :: string where
  \<open>meta_utf8 = ''<meta charset="utf-8">''\<close>

text \<open>
  \<open>charset_inside s\<close>: somewhere in \<open>s\<close> the text \<^verbatim>\<open>charset=\<close> occurs with at least one
  more character after it.
\<close>

fun charset_inside :: "string \<Rightarrow> bool" where
  "charset_inside [] = False"
| "charset_inside (c # cs) =
     ((startsWith_ci (c # cs) ''charset='' \<and> 8 < length (c # cs)) \<or> charset_inside cs)"

text \<open>
  A match anchored at the head of \<open>s\<close>. Every character between \<^verbatim>\<open><meta\<close> and the closing
  \<^verbatim>\<open>>\<close> is matched by \<^verbatim>\<open>[^>]\<close> or by \<^verbatim>\<open>charset=\<close>, so the match ends at the first \<^verbatim>\<open>>\<close>
  after \<^verbatim>\<open><meta\<close>, and it exists when the text in between splits into a non-empty part,
  \<^verbatim>\<open>charset=\<close> and another non-empty part. The result is the text after the match.
\<close>

definition match_meta :: "string \<Rightarrow> string option" where
  "match_meta s =
     (if startsWith_ci s ''<meta'' then
        (let t = drop 5 s;
             seg = takeWhile (\<lambda>x. x \<noteq> CHR ''>'') t;
             rest = dropWhile (\<lambda>x. x \<noteq> CHR ''>'') t
         in if rest \<noteq> [] \<and> seg \<noteq> [] \<and> charset_inside (tl seg) then Some (tl rest) else None)
      else None)"

text \<open>
  \<^verbatim>\<open>html.replace(/<meta[^>]+charset=[^>]+>/i, '<meta charset="utf-8">')\<close>: the leftmost
  match, and only that one, is replaced.
\<close>

fun replace_meta :: "string \<Rightarrow> string" where
  "replace_meta [] = []"
| "replace_meta (c # cs) =
     (case match_meta (c # cs) of
        Some rest \<Rightarrow> meta_utf8 @ rest
      | None \<Rightarrow> c # replace_meta cs)"

text \<open>Whether the pattern matches anywhere in the document.\<close>

fun meta_occurs :: "string \<Rightarrow> bool" where
  "meta_occurs [] = False"
| "meta_occurs (c # cs) = (match_meta (c # cs) \<noteq> None \<or> meta_occurs cs)"

subsection \<open>\<^verbatim>\<open>/charset=([^;]+)/i\<close>\<close>

text \<open>
  \<^verbatim>\<open>(ct).match(/charset=([^;]+)/i)\<close>: the capture group of the leftmost match, \<open>None\<close>
  when there is no match.
\<close>

fun charset_match :: "string \<Rightarrow> string option" where
  "charset_match [] = None"
| "charset_match (c # cs) =
     (let v = takeWhile (\<lambda>x. x \<noteq> CHR '';'') (drop 8 (c # cs)) in
      if startsWith_ci (c # cs) ''charset='' \<and> v \<noteq> [] then Some v else charset_match cs)"

subsection \<open>The target of a decode-proxy request\<close>

text \<open>\<^verbatim>\<open>'https://' + url.replace(/^\/proxy\//, '')\<close> (index.js).\<close>

definition proxy_target_replace :: "string \<Rightarrow> string" where
  "proxy_target_replace url =
     ''https://'' @ (if startsWith url ''/proxy/'' then drop 7 url else url)"

text \<open>\<^verbatim>\<open>'https://' + url.slice(7)\<close> (server.js).\<close>

definition proxy_target_slice :: "string \<Rightarrow> string" where
  "proxy_target_slice url = ''https://'' @ drop 7 url"

section \<open>Requests, responses and collaborators\<close>

text \<open>
  Everything a handler throws or an awaited promise rejects with is a value of
  \<open>js_error\<close>.
\<close>

datatype js_error = TimeoutError | NetworkError | RedisError | RangeError | TypeError

type_synonym buffer = "char list"

record request =
  req_url :: "string option"
  req_headers :: "string \<rightharpoonup> string"

text \<open>\<^verbatim>\<open>req.url || ''\<close>\<close>

definition url_of :: "request \<Rightarrow> string" where
  "url_of req = (case req_url req of None \<Rightarrow> [] | Some u \<Rightarrow> u)"

text \<open>
  The value given to \<^verbatim>\<open>observe\<close>: a status number, or the object \<^verbatim>\<open>res.stream.state\<close>.
\<close>

datatype code = Status nat | StreamState

text \<open>
  The properties of \<^verbatim>\<open>res\<close> that the handlers read:
  \<^verbatim>\<open>res.stream.session.socket.encrypted\<close>,
  \<^verbatim>\<open>res.stream.session.socket._httpMessage.headers\<close>, \<^verbatim>\<open>res.stream.responded\<close>
  (read after \<^verbatim>\<open>bare.routeRequest\<close>) in index.js, and \<^verbatim>\<open>res.socket.serverResponse\<close> with
  the header table its \<^verbatim>\<open>getHeader\<close> reads in server.js. \<open>httpMessage_headers\<close> is \<open>None\<close>
  when \<^verbatim>\<open>_httpMessage\<close> or its \<^verbatim>\<open>headers\<close> is undefined: index.js reads it without a test,
  and the read then throws a TypeError. A missing header is \<open>None\<close>.
\<close>

record response_object =
  socket_encrypted :: bool
  httpMessage_headers :: "(string \<rightharpoonup> string) option"
  stream_responded :: bool
  serverResponse :: "(string \<rightharpoonup> string) option"

text \<open>
  A body is sent as it is or as the buffer \<^verbatim>\<open>zlib.gzip\<close> makes of it; \<open>Gzip d\<close> stands for
  that buffer, and \<open>gunzip\<close> for its decompression.
\<close>

datatype body = Plain string | Gzip string

fun gunzip :: "body \<Rightarrow> string" where
  "gunzip (Plain d) = d"
| "gunzip (Gzip d) = d"

fun is_gzip :: "body \<Rightarrow> bool" where
  "is_gzip (Plain d) = False"
| "is_gzip (Gzip d) = True"

datatype header =
    Content_Type string
  | Cache_Control_public_max_age nat
  | Content_Encoding string

fun header_name :: "header \<Rightarrow> string" where
  "header_name (Content_Type v) = ''content-type''"
| "header_name (Cache_Control_public_max_age n) = ''cache-control''"
| "header_name (Content_Encoding v) = ''content-encoding''"

text \<open>
  \<^verbatim>\<open>res.setHeader(name, value)\<close> on the headers set so far: a header of that name is
  replaced where it stands, a new one comes last.
\<close>

definition put_header :: "header \<Rightarrow> header list \<Rightarrow> header list" where
  "put_header h hs =
     (if header_name h \<in> set (map header_name hs)
      then map (\<lambda>x. if header_name x = header_name h then h else x) hs
      else hs @ [h])"

text \<open>
  A response is ended by the handler (status, headers, body), or produced by the tunnel
  adapter (\<^verbatim>\<open>bare.routeRequest\<close>) or by the static middleware on its own.
\<close>

datatype response = Ended nat "header list" body | ByBare | ByStatic

datatype call =
    MemGet string
  | MemSet string
  | RedisGet string
  | RedisSet string nat
  | Execute string
  | Fetch string
  | RouteRequest
  | ServeStatic

fun is_backend_call :: "call \<Rightarrow> bool" where
  "is_backend_call (Execute t) = True"
| "is_backend_call (Fetch t) = True"
| "is_backend_call c = False"

record static_error =
  statusCode :: "nat option"
  stack :: "string option"

text \<open>
  \<^verbatim>\<open>serve(req, res, next)\<close> with \<^verbatim>\<open>fallthrough: false\<close>: the middleware either sends the
  file itself, or calls \<^verbatim>\<open>next(err)\<close>, or throws before it returns.
\<close>

datatype static_outcome = Served | Next "static_error option" | ServeThrows js_error

text \<open>
  \<^verbatim>\<open>bare.routeRequest(req, res)\<close>, which the handlers call without \<^verbatim>\<open>await\<close>: the adapter
  answers the request, or leaves it without a response, or throws before it returns.
\<close>

datatype tunnel_outcome = Answers | Silent | RouteThrows js_error

record fetch_response =
  content_type :: "string option"
  arrayBuffer :: "js_error + buffer"

text \<open>
  The collaborators, as one request meets them. \<open>searchParam href name\<close> is
  \<^verbatim>\<open>new URL(href).searchParams.get(name)\<close>; \<open>page_content url\<close> is \<^verbatim>\<open>page.goto(url)\<close>
  followed by \<^verbatim>\<open>page.content()\<close>; \<open>TextDecoder label\<close> is \<open>None\<close> when the constructor
  throws a RangeError, and otherwise the \<^verbatim>\<open>decode\<close> of the decoder; \<open>now_lookup\<close> and
  \<open>now_store\<close> are the clock readings (in milliseconds) at the cache lookups and the
  cache stores of the request.
\<close>

record env =
  searchParam :: "string \<Rightarrow> string \<Rightarrow> string option"
  shouldRoute :: "request \<Rightarrow> bool"
  routeRequest :: "request \<Rightarrow> tunnel_outcome"
  page_content :: "string \<Rightarrow> js_error + string"
  fetch :: "string \<Rightarrow> js_error + fetch_response"
  TextDecoder :: "string \<Rightarrow> (buffer \<Rightarrow> string) option"
  redis_get_fault :: "string \<Rightarrow> js_error option"
  redis_set_fault :: "string \<Rightarrow> js_error option"
  serve :: "request \<Rightarrow> static_outcome"
  metrics_contentType :: string
  metrics_text :: string
  now_lookup :: nat
  now_store :: nat

text \<open>
  The state: the in-memory LRU cache (most recently used first; key, value, time of
  insertion), the Redis store (value and time of expiry), and what the request has done so
  far: responses sent, metric observations, collaborator calls, and the headers set on the
  response with \<^verbatim>\<open>setHeader\<close>.
\<close>

record world =
  memCache :: "(string \<times> string \<times> nat) list"
  redis :: "string \<rightharpoonup> string \<times> nat"
  sent :: "response list"
  observed :: "(string \<times> code) list"
  calls :: "call list"
  headers_set :: "header list"

type_synonym 'a io = "world \<Rightarrow> (js_error + 'a) \<times> world"

definition return :: "'a \<Rightarrow> 'a io" where
  "return a w = (Inr a, w)"

definition lift :: "js_error + 'a \<Rightarrow> 'a io" where
  "lift r w = (r, w)"

definition bind :: "'a io \<Rightarrow> ('a \<Rightarrow> 'b io) \<Rightarrow> 'b io" where
  "bind m f w = (case m w of (Inl e, w') \<Rightarrow> (Inl e, w') | (Inr a, w') \<Rightarrow> f a w')"

definition try_catch :: "'a io \<Rightarrow> (js_error \<Rightarrow> 'a io) \<Rightarrow> 'a io" where
  "try_catch m h w = (case m w of (Inl e, w') \<Rightarrow> h e w' | (Inr a, w') \<Rightarrow> (Inr a, w'))"

definition called :: "call \<Rightarrow> unit io" where
  "called c w = (Inr (), w\<lparr>calls := calls w @ [c]\<rparr>)"

text \<open>A response that a collaborator produces on its own.\<close>

definition end_response :: "response \<Rightarrow> unit io" where
  "end_response r w = (Inr (), w\<lparr>sent := sent w @ [r]\<rparr>)"

text \<open>\<^verbatim>\<open>res.setHeader(name, value)\<close>\<close>

definition setHeader :: "header \<Rightarrow> unit io" where
  "setHeader h w = (Inr (), w\<lparr>headers_set := put_header h (headers_set w)\<rparr>)"

text \<open>
  \<^verbatim>\<open>res.writeHead(status, { 'Content-Type': type }); res.end(body)\<close>: the header given to
  \<^verbatim>\<open>writeHead\<close> joins the headers set before.
\<close>

definition writeHead_end :: "nat \<Rightarrow> header \<Rightarrow> body \<Rightarrow> unit io" where
  "writeHead_end status h b w =
     (Inr (), w\<lparr>sent := sent w @ [Ended status (put_header h (headers_set w)) b]\<rparr>)"

text \<open>\<^verbatim>\<open>res.end(body)\<close> with the default status 200 and the headers set before.\<close>

definition res_end :: "body \<Rightarrow> unit io" where
  "res_end b w = (Inr (), w\<lparr>sent := sent w @ [Ended 200 (headers_set w) b]\<rparr>)"

text \<open>
  \<^verbatim>\<open>observe(code)\<close>: one increment of the counter labelled \<^verbatim>\<open>{handler, code}\<close> and one
  observation of the latency histogram labelled \<^verbatim>\<open>handler\<close>.
\<close>

definition observe :: "string \<Rightarrow> code \<Rightarrow> unit io" where
  "observe handler c w = (Inr (), w\<lparr>observed := observed w @ [(handler, c)]\<rparr>)"

section \<open>The cache tier\<close>

text \<open>\<^verbatim>\<open>new LRU({ max: 500, ttl: 1000 * 60 * 2 })\<close>\<close>

definition lru_max :: nat where
  "lru_max = 500"

definition lru_ttl :: nat where
  "lru_ttl = 1000 * 60 * 2"

text \<open>
  \<^verbatim>\<open>memCache.get(key)\<close>: a stale entry is dropped and gives \<^verbatim>\<open>undefined\<close>; a live one
  becomes the most recently used.
\<close>

definition memCache_get :: "env \<Rightarrow> string \<Rightarrow> string option io" where
  "memCache_get e k w =
     (let c = memCache w; w' = w\<lparr>calls := calls w @ [MemGet k]\<rparr> in
      case find (\<lambda>x. fst x = k) c of
        None \<Rightarrow> (Inr None, w')
      | Some (k', v, t0) \<Rightarrow>
          if lru_ttl < now_lookup e - t0
          then (Inr None, w'\<lparr>memCache := filter (\<lambda>x. fst x \<noteq> k) c\<rparr>)
          else (Inr (Some v), w'\<lparr>memCache := (k', v, t0) # filter (\<lambda>x. fst x \<noteq> k) c\<rparr>))"

text \<open>\<^verbatim>\<open>memCache.set(key, value)\<close>: the least recently used entries beyond \<open>max\<close> go.\<close>

definition memCache_set :: "env \<Rightarrow> string \<Rightarrow> string \<Rightarrow> unit io" where
  "memCache_set e k v w =
     (Inr (), w\<lparr>calls := calls w @ [MemSet k],
               memCache := take lru_max ((k, v, now_store e) # filter (\<lambda>x. fst x \<noteq> k) (memCache w))\<rparr>)"

text \<open>\<^verbatim>\<open>await redis.get(key)\<close>: \<^verbatim>\<open>null\<close> for a missing or expired key.\<close>

definition redis_get :: "env \<Rightarrow> string \<Rightarrow> string option io" where
  "redis_get e k w =
     (let w' = w\<lparr>calls := calls w @ [RedisGet k]\<rparr> in
      case redis_get_fault e k of
        Some err \<Rightarrow> (Inl err, w')
      | None \<Rightarrow>
          (case redis w k of
             None \<Rightarrow> (Inr None, w')
           | Some (v, expiry) \<Rightarrow> if now_lookup e < expiry then (Inr (Some v), w') else (Inr None, w')))"

text \<open>
  \<^verbatim>\<open>await redis.set(key, value, 'EX', ttl)\<close>; Redis refuses an expire time of 0.
\<close>

definition redis_set :: "env \<Rightarrow> string \<Rightarrow> string \<Rightarrow> nat \<Rightarrow> unit io" where
  "redis_set e k v ttl w =
     (let w' = w\<lparr>calls := calls w @ [RedisSet k ttl]\<rparr> in
      case redis_set_fault e k of
        Some err \<Rightarrow> (Inl err, w')
      | None \<Rightarrow>
          if ttl = 0 then (Inl RedisError, w')
          else (Inr (), w'\<lparr>redis := (redis w)(k \<mapsto> (v, now_store e + ttl * 1000))\<rparr>))"

text \<open>JavaScript truthiness of a value that is a string, \<^verbatim>\<open>undefined\<close> or \<^verbatim>\<open>null\<close>.\<close>

definition truthy :: "string option \<Rightarrow> bool" where
  "truthy x = (case x of None \<Rightarrow> False | Some s \<Rightarrow> s \<noteq> [])"

text \<open>\<^verbatim>\<open>memCache.get(key) || await redis.get(key)\<close>\<close>

definition cache_get :: "env \<Rightarrow> string \<Rightarrow> string option io" where
  "cache_get e k = bind (memCache_get e k) (\<lambda>m. if truthy m then return m else redis_get e k)"

text \<open>\<^verbatim>\<open>memCache.set(key, value); await redis.set(key, value, 'EX', ttl)\<close>\<close>

definition cache_set :: "env \<Rightarrow> string \<Rightarrow> string \<Rightarrow> nat \<Rightarrow> unit io" where
  "cache_set e k v ttl = bind (memCache_set e k v) (\<lambda>_. redis_set e k v ttl)"

section \<open>The render backend and the charset normalizer\<close>

text \<open>
  The task registered with the Puppeteer cluster: load the page, take its content, rewrite
  the first meta charset declaration. \<^verbatim>\<open>puppeteerCluster.execute(target)\<close> runs it.
\<close>

definition cluster_task :: "env \<Rightarrow> string \<Rightarrow> js_error + string" where
  "cluster_task e url =
     (case page_content e url of Inl err \<Rightarrow> Inl err | Inr html \<Rightarrow> Inr (replace_meta html))"

definition execute :: "env \<Rightarrow> string \<Rightarrow> string io" where
  "execute e target = bind (called (Execute target)) (\<lambda>_. lift (cluster_task e target))"

text \<open>
  The charset is taken from the \<^verbatim>\<open>content-type\<close> header, \<^verbatim>\<open>utf-8\<close> when there is none; when
  \<^verbatim>\<open>new TextDecoder(cs)\<close> throws, the buffer is decoded with \<^verbatim>\<open>new TextDecoder('utf-8')\<close>.
\<close>

definition declared_charset :: "string option \<Rightarrow> string option" where
  "declared_charset ct =
     (case charset_match (case ct of None \<Rightarrow> [] | Some s \<Rightarrow> s) of
        None \<Rightarrow> None
      | Some g \<Rightarrow> Some (toLowerCase g))"

definition decode_buffer :: "env \<Rightarrow> string option \<Rightarrow> buffer \<Rightarrow> js_error + string" where
  "decode_buffer e ct buf =
     (let cs = (case declared_charset ct of Some g \<Rightarrow> g | None \<Rightarrow> ''utf-8'') in
      case TextDecoder e cs of
        Some d \<Rightarrow> Inr (d buf)
      | None \<Rightarrow>
          (case TextDecoder e ''utf-8'' of
             Some u \<Rightarrow> Inr (u buf)
           | None \<Rightarrow> Inl RangeError))"

definition fetch_text :: "env \<Rightarrow> string \<Rightarrow> string io" where
  "fetch_text e target =
     bind (called (Fetch target)) (\<lambda>_.
     bind (lift (fetch e target)) (\<lambda>rsp.
     bind (lift (arrayBuffer rsp)) (\<lambda>buf.
     bind (lift (decode_buffer e (content_type rsp) buf)) (\<lambda>text.
     return (replace_meta text)))))"

section \<open>The two pipelines behind the cache\<close>

text \<open>
  Both handlers, in both files, wrap their work in the same lines:
  \<^verbatim>\<open>let v = memCache.get(key) || await redis.get(key);
  if (!v) { v = <work>; memCache.set(key, v); await redis.set(key, v, 'EX', ttl); }\<close>
\<close>

definition cached :: "env \<Rightarrow> string \<Rightarrow> nat \<Rightarrow> string io \<Rightarrow> string io" where
  "cached e key ttl work =
     bind (cache_get e key) (\<lambda>v.
       let miss = bind work (\<lambda>x. bind (cache_set e key x ttl) (\<lambda>_. return x))
       in case v of None \<Rightarrow> miss | Some x \<Rightarrow> if x = [] then miss else return x)"

text \<open>Lines 120 to 126 of index.js and 107 to 113 of server.js.\<close>

definition render_html :: "env \<Rightarrow> string \<Rightarrow> string io" where
  "render_html e target = cached e (''pp:'' @ target) 30 (execute e target)"

text \<open>Lines 135 to 150 of index.js and 122 to 134 of server.js.\<close>

definition proxied_text :: "env \<Rightarrow> string \<Rightarrow> string io" where
  "proxied_text e target = cached e (''px:'' @ target) 60 (fetch_text e target)"

section \<open>The response encoder\<close>

definition text_html :: string where
  "text_html = ''text/html; charset=utf-8''"

definition text_plain :: string where
  "text_plain = ''text/plain; charset=utf-8''"

text \<open>
  \<^verbatim>\<open>send\<close> of index.js. The two headers are set before the socket is read; on an
  encrypted socket without \<^verbatim>\<open>_httpMessage.headers\<close> the read throws.
\<close>

definition accept_index :: "response_object \<Rightarrow> js_error + string option" where
  "accept_index res =
     (if socket_encrypted res
      then (case httpMessage_headers res of
              None \<Rightarrow> Inl TypeError
            | Some hs \<Rightarrow> Inr (hs ''accept-encoding''))
      else Inr (Some []))"

definition send_index :: "response_object \<Rightarrow> string \<Rightarrow> string \<Rightarrow> nat \<Rightarrow> unit io" where
  "send_index res data type maxAge =
     bind (setHeader (Content_Type type)) (\<lambda>_.
     bind (setHeader (Cache_Control_public_max_age maxAge)) (\<lambda>_.
     bind (lift (accept_index res)) (\<lambda>accept.
       if truthy accept \<and> (case accept of None \<Rightarrow> False | Some a \<Rightarrow> includes_str a ''gzip'')
       then bind (setHeader (Content_Encoding ''gzip'')) (\<lambda>_. res_end (Gzip data))
       else res_end (Plain data))))"

text \<open>\<^verbatim>\<open>send\<close> of server.js.\<close>

definition accepts_server :: "response_object \<Rightarrow> string" where
  "accepts_server res =
     (case serverResponse res of
        None \<Rightarrow> []
      | Some hs \<Rightarrow> (case hs ''accept-encoding'' of None \<Rightarrow> [] | Some a \<Rightarrow> a))"

definition send_server :: "response_object \<Rightarrow> string \<Rightarrow> string \<Rightarrow> nat \<Rightarrow> unit io" where
  "send_server res data contentType maxAge =
     bind (setHeader (Content_Type contentType)) (\<lambda>_.
     bind (setHeader (Cache_Control_public_max_age maxAge)) (\<lambda>_.
       if includes_str (accepts_server res) ''gzip''
       then bind (setHeader (Content_Encoding ''gzip'')) (\<lambda>_. res_end (Gzip data))
       else res_end (Plain data)))"

section \<open>The static middleware\<close>

text \<open>
  \<^verbatim>\<open>serve(req, res, err => { ... })\<close>: the callback runs only when the middleware calls
  \<^verbatim>\<open>next\<close>; \<^verbatim>\<open>err?.statusCode || 404\<close> and \<^verbatim>\<open>err?.stack || 'Not Found'\<close>.
\<close>

definition error_code :: "static_error option \<Rightarrow> nat" where
  "error_code err =
     (case err of
        None \<Rightarrow> 404
      | Some x \<Rightarrow> (case statusCode x of None \<Rightarrow> 404 | Some n \<Rightarrow> if n = 0 then 404 else n))"

definition error_text :: "static_error option \<Rightarrow> string" where
  "error_text err =
     (case err of
        None \<Rightarrow> ''Not Found''
      | Some x \<Rightarrow> (case stack x of None \<Rightarrow> ''Not Found'' | Some t \<Rightarrow> if t = [] then ''Not Found'' else t))"

definition serve_static :: "env \<Rightarrow> request \<Rightarrow> string \<Rightarrow> unit io" where
  "serve_static e req handler =
     bind (called ServeStatic) (\<lambda>_.
       case serve e req of
         Served \<Rightarrow> end_response ByStatic
       | Next err \<Rightarrow>
           bind (writeHead_end (error_code err) (Content_Type text_plain) (Plain (error_text err)))
             (\<lambda>_. observe handler (Status (error_code err)))
       | ServeThrows err \<Rightarrow> lift (Inl err))"

section \<open>index.js: the request listener and the metrics listener\<close>

definition handler_index :: "env \<Rightarrow> request \<Rightarrow> string" where
  "handler_index e req =
     (let url = url_of req in
      if startsWith url ''/puppeteer?'' then ''puppeteer''
      else if startsWith url ''/proxy/'' then ''decode''
      else if shouldRoute e req then ''bare''
      else ''static'')"

definition puppeteer_index :: "env \<Rightarrow> response_object \<Rightarrow> string \<Rightarrow> string \<Rightarrow> unit io" where
  "puppeteer_index e res handler url =
     (let missing =
            bind (observe handler (Status 400)) (\<lambda>_.
              writeHead_end 400 (Content_Type text_plain) (Plain ''Missing url''))
      in case searchParam e (''http://dummy'' @ url) ''url'' of
           None \<Rightarrow> missing
         | Some target \<Rightarrow>
             if target = [] then missing
             else bind (render_html e target) (\<lambda>html.
                  bind (send_index res html text_html 30) (\<lambda>_.
                  observe handler (Status 200))))"

definition decode_index :: "env \<Rightarrow> response_object \<Rightarrow> string \<Rightarrow> string \<Rightarrow> unit io" where
  "decode_index e res handler url =
     (let target = proxy_target_replace url in
      bind (proxied_text e target) (\<lambda>text.
      bind (send_index res text text_html 60) (\<lambda>_.
      observe handler (Status 200))))"

text \<open>
  \<^verbatim>\<open>bare.routeRequest(req, res); observe(res.stream.responded ? res.stream.state : 200)\<close>:
  the response, if there is one, is the adapter's.
\<close>

definition route :: "env \<Rightarrow> request \<Rightarrow> unit io" where
  "route e req =
     bind (called RouteRequest) (\<lambda>_.
       case routeRequest e req of
         Answers \<Rightarrow> end_response ByBare
       | Silent \<Rightarrow> return ()
       | RouteThrows err \<Rightarrow> lift (Inl err))"

definition bare_index :: "env \<Rightarrow> request \<Rightarrow> response_object \<Rightarrow> string \<Rightarrow> unit io" where
  "bare_index e req res handler =
     bind (route e req) (\<lambda>_.
     observe handler (if stream_responded res then StreamState else Status 200))"

definition internal_error :: "string \<Rightarrow> js_error \<Rightarrow> unit io" where
  "internal_error handler err =
     bind (writeHead_end 500 (Content_Type text_plain) (Plain ''Internal Error'')) (\<lambda>_.
     observe handler (Status 500))"

definition request_listener :: "env \<Rightarrow> request \<Rightarrow> response_object \<Rightarrow> unit io" where
  "request_listener e req res =
     (let url = url_of req; handler = handler_index e req in
      try_catch
        (if startsWith url ''/puppeteer?'' then puppeteer_index e res handler url
         else if startsWith url ''/proxy/'' then decode_index e res handler url
         else if shouldRoute e req then bare_index e req res handler
         else serve_static e req handler)
        (internal_error handler))"

definition metrics_listener :: "env \<Rightarrow> request \<Rightarrow> unit io" where
  "metrics_listener e req =
     (if req_url req = Some ''/metrics''
      then bind (setHeader (Content_Type (metrics_contentType e))) (\<lambda>_. res_end (Plain (metrics_text e)))
      else return ())"

text \<open>Both listeners of the \<^verbatim>\<open>request\<close> event run, in the order of their registration.\<close>

definition index_server :: "env \<Rightarrow> request \<Rightarrow> response_object \<Rightarrow> world \<Rightarrow> world" where
  "index_server e req res w = snd (metrics_listener e req (snd (request_listener e req res w)))"

section \<open>server.js: \<^verbatim>\<open>createBareHandler\<close>\<close>

definition handler_server :: "env \<Rightarrow> request \<Rightarrow> string" where
  "handler_server e req =
     (let url = url_of req in
      if startsWith url ''/puppeteer?'' then ''puppeteer''
      else if startsWith url ''/proxy/'' then ''decode''
      else if shouldRoute e req then ''bare''
      else if url = ''/metrics'' then ''metrics''
      else ''static'')"

definition metrics_server :: "env \<Rightarrow> string \<Rightarrow> unit io" where
  "metrics_server e handler =
     bind (setHeader (Content_Type (metrics_contentType e))) (\<lambda>_.
     bind (res_end (Plain (metrics_text e))) (\<lambda>_.
     observe handler (Status 200)))"

definition puppeteer_server :: "env \<Rightarrow> response_object \<Rightarrow> string \<Rightarrow> string \<Rightarrow> unit io" where
  "puppeteer_server e res handler url =
     (let missing =
            bind (writeHead_end 400 (Content_Type text_plain) (Plain ''Missing url'')) (\<lambda>_.
              observe handler (Status 400))
      in case searchParam e (''http://x'' @ url) ''url'' of
           None \<Rightarrow> missing
         | Some target \<Rightarrow>
             if target = [] then missing
             else bind (render_html e target) (\<lambda>html.
                  bind (send_server res html text_html 30) (\<lambda>_.
                  observe handler (Status 200))))"

definition decode_server :: "env \<Rightarrow> response_object \<Rightarrow> string \<Rightarrow> string \<Rightarrow> unit io" where
  "decode_server e res handler url =
     (let target = proxy_target_slice url in
      bind (proxied_text e target) (\<lambda>text.
      bind (send_server res text text_html 60) (\<lambda>_.
      observe handler (Status 200))))"

definition bare_server :: "env \<Rightarrow> request \<Rightarrow> string \<Rightarrow> unit io" where
  "bare_server e req handler =
     bind (route e req) (\<lambda>_.
     observe handler (Status 200))"

text \<open>
  The result is the outcome of the promise the async function returns (\<open>Inl\<close>: rejected)
  and the state it leaves.
\<close>

definition createBareHandler :: "env \<Rightarrow> request \<Rightarrow> response_object \<Rightarrow> unit io" where
  "createBareHandler e req res =
     (let url = url_of req; handler = handler_server e req in
      if handler = ''metrics'' then metrics_server e handler
      else if handler = ''puppeteer'' then puppeteer_server e res handler url
      else if handler = ''decode'' then decode_server e res handler url
      else if handler = ''bare'' then bare_server e req handler
      else serve_static e req handler)"

text \<open>
  A request starts with nothing sent, observed or called, and a response on which no header
  is set; the caches are what they are.
\<close>

definition fresh :: "world \<Rightarrow> world" where
  "fresh w = w\<lparr>sent := [], observed := [], calls := [], headers_set := []\<rparr>"

definition empty_world :: world where
  "empty_world =
     \<lparr>memCache = [], redis = Map.empty, sent = [], observed = [], calls = [], headers_set = []\<rparr>"

text \<open>
  What a request runs behind the cache, when it is a render request with a non-empty
  \<^verbatim>\<open>url\<close> parameter or a decode-proxy request: the cache key, the time to live given to
  Redis (also the \<^verbatim>\<open>max-age\<close> of the response), and the work done on a miss.
\<close>

definition pipeline_index :: "env \<Rightarrow> request \<Rightarrow> (string \<times> nat \<times> string io) option" where
  "pipeline_index e req =
     (let url = url_of req in
      if startsWith url ''/puppeteer?'' then
        (case searchParam e (''http://dummy'' @ url) ''url'' of
           None \<Rightarrow> None
         | Some target \<Rightarrow>
             if target = [] then None else Some (''pp:'' @ target, 30, execute e target))
      else if startsWith url ''/proxy/'' then
        Some (''px:'' @ proxy_target_replace url, 60, fetch_text e (proxy_target_replace url))
      else None)"

definition pipeline_server :: "env \<Rightarrow> request \<Rightarrow> (string \<times> nat \<times> string io) option" where
  "pipeline_server e req =
     (let url = url_of req in
      if startsWith url ''/puppeteer?'' then
        (case searchParam e (''http://x'' @ url) ''url'' of
           None \<Rightarrow> None
         | Some target \<Rightarrow>
             if target = [] then None else Some (''pp:'' @ target, 30, execute e target))
      else if startsWith url ''/proxy/'' then
        Some (''px:'' @ proxy_target_slice url, 60, fetch_text e (proxy_target_slice url))
      else None)"

text \<open>The value each tier holds for a key, whatever its age.\<close>

definition memCache_value :: "world \<Rightarrow> string \<Rightarrow> string option" where
  "memCache_value w k = map_option (\<lambda>x. fst (snd x)) (find (\<lambda>x. fst x = k) (memCache w))"

definition redis_value :: "world \<Rightarrow> string \<Rightarrow> string option" where
  "redis_value w k = map_option fst (redis w k)"

definition backend_calls :: "world \<Rightarrow> call list" where
  "backend_calls w = filter is_backend_call (calls w)"

section \<open>The charset declaration of a content type, read off the pattern\<close>

text \<open>
  The pattern \<^verbatim>\<open>/charset=([^;]+)/i\<close> said in words, without the functions that compute the
  match: a character of the text agrees with a character of the pattern when it is that
  character or, for a lower-case letter of the pattern, its upper-case form; the pattern is
  at position \<open>i\<close> of a text when \<^verbatim>\<open>charset=\<close> is spelled there in any mixture of cases and
  the next character exists and is not a semicolon.
\<close>

definition any_case :: "char \<Rightarrow> char \<Rightarrow> bool" where
  "any_case p x =
     (x = p \<or> (97 \<le> (of_char p :: nat) \<and> (of_char p :: nat) \<le> 122 \<and> (of_char x :: nat) + 32 = of_char p))"

definition spells :: "string \<Rightarrow> string \<Rightarrow> bool" where
  "spells p s = list_all2 any_case p s"

definition charset_at :: "string \<Rightarrow> nat \<Rightarrow> bool" where
  "charset_at s i =
     (spells ''charset='' (take 8 (drop i s)) \<and> i + 8 < length s \<and> s ! (i + 8) \<noteq> CHR '';'')"

text \<open>The value declared at position \<open>i\<close>: the characters after \<^verbatim>\<open>charset=\<close> up to a semicolon.\<close>

definition charset_value :: "string \<Rightarrow> nat \<Rightarrow> string" where
  "charset_value s i = takeWhile (\<lambda>x. x \<noteq> CHR '';'') (drop (i + 8) s)"

section \<open>Normal forms of the handlers\<close>

text \<open>
  The response \<^verbatim>\<open>send\<close> ends, the condition under which each \<^verbatim>\<open>send\<close> compresses, the
  shape both handlers take on a request that goes through the cache, and the answer of
  index.js to such a request, given the outcome of the cached work.
\<close>

definition encoded :: "bool \<Rightarrow> string \<Rightarrow> string \<Rightarrow> nat \<Rightarrow> response" where
  "encoded gz data type maxAge =
     (if gz
      then Ended 200 [Content_Type type, Cache_Control_public_max_age maxAge, Content_Encoding ''gzip''] (Gzip data)
      else Ended 200 [Content_Type type, Cache_Control_public_max_age maxAge] (Plain data))"

definition gzip_index :: "response_object \<Rightarrow> bool" where
  "gzip_index res =
     (case accept_index res of
        Inl err \<Rightarrow> False
      | Inr accept \<Rightarrow> (case accept of None \<Rightarrow> False | Some a \<Rightarrow> includes_str a ''gzip''))"

definition gzip_server :: "response_object \<Rightarrow> bool" where
  "gzip_server res = includes_str (accepts_server res) ''gzip''"

definition answer_index :: "env \<Rightarrow> response_object \<Rightarrow> string \<Rightarrow> string \<Rightarrow> nat \<Rightarrow> string io \<Rightarrow> unit io" where
  "answer_index e res h key ttl work =
     try_catch
       (bind (cached e key ttl work) (\<lambda>v.
        bind (send_index res v text_html ttl) (\<lambda>_. observe h (Status 200))))
       (internal_error h)"

definition answer_server :: "env \<Rightarrow> response_object \<Rightarrow> string \<Rightarrow> string \<Rightarrow> nat \<Rightarrow> string io \<Rightarrow> unit io" where
  "answer_server e res h key ttl work =
     bind (cached e key ttl work) (\<lambda>v.
     bind (send_server res v text_html ttl) (\<lambda>_. observe h (Status 200)))"

definition internal_error_response :: "header list \<Rightarrow> response" where
  "internal_error_response hs = Ended 500 (put_header (Content_Type text_plain) hs) (Plain ''Internal Error'')"

definition answered_index :: "response_object \<Rightarrow> nat \<Rightarrow> js_error + string \<Rightarrow> response" where
  "answered_index res ttl r =
     (case r of
        Inl err \<Rightarrow> internal_error_response []
      | Inr v \<Rightarrow>
          (case accept_index res of
             Inl err \<Rightarrow> internal_error_response [Content_Type text_html, Cache_Control_public_max_age ttl]
           | Inr a \<Rightarrow> encoded (gzip_index res) v text_html ttl))"

definition answered_code :: "response_object \<Rightarrow> js_error + string \<Rightarrow> code" where
  "answered_code res r =
     (case r of
        Inl err \<Rightarrow> Status 500
      | Inr v \<Rightarrow> (case accept_index res of Inl err \<Rightarrow> Status 500 | Inr a \<Rightarrow> Status 200))"

section \<open>Example requests and collaborators\<close>

definition no_fault :: "string \<Rightarrow> js_error option" where
  "no_fault k = None"

definition example_param :: "string \<Rightarrow> string \<Rightarrow> string option" where
  "example_param href name =
     (if name = ''url'' \<and> (href = ''http://dummy/puppeteer?url=https://example.com''
                           \<or> href = ''http://x/puppeteer?url=https://example.com'')
      then Some ''https://example.com''
      else if name = ''url'' \<and> (href = ''http://dummy/puppeteer?url='' \<or> href = ''http://x/puppeteer?url='')
      then Some []
      else None)"

definition example_page :: string where
  \<open>example_page = ''<html><head><meta charset="sjis"></head><body>hi</body></html>''\<close>

text \<open>
  The platform of the examples knows two labels: \<^verbatim>\<open>utf-8\<close>, and \<^verbatim>\<open>shift_jis\<close>, whose decoder
  turns the byte 5C into the yen sign.
\<close>

definition example_sjis :: "buffer \<Rightarrow> string" where
  "example_sjis buf = map (\<lambda>c. if c = CHR 0x5C then CHR 0xA5 else c) buf"

definition example_env :: env where
  "example_env =
     \<lparr>searchParam = example_param,
      shouldRoute = (\<lambda>req. startsWith (url_of req) ''/bare/''),
      routeRequest = (\<lambda>req. Silent),
      page_content = (\<lambda>url. if url = ''https://example.com'' then Inr example_page else Inl TimeoutError),
      fetch = (\<lambda>url. if url = ''https://example.com/page''
                      then Inr \<lparr>content_type = Some ''text/html; charset=X-Unknown'', arrayBuffer = Inr ''hello''\<rparr>
                      else if url = ''https://example.com/empty''
                      then Inr \<lparr>content_type = None, arrayBuffer = Inr []\<rparr>
                      else if url = ''https://example.com/sjis''
                      then Inr \<lparr>content_type = Some ''text/html; Charset=Shift_JIS;x=1'',
                                arrayBuffer = Inr [CHR 0x5C, CHR ''1'', CHR ''0'', CHR ''0'']\<rparr>
                      else Inl NetworkError),
      TextDecoder = (\<lambda>label. if label = ''utf-8'' then Some (\<lambda>buf. buf)
                              else if label = ''shift_jis'' then Some example_sjis
                              else None),
      redis_get_fault = no_fault,
      redis_set_fault = no_fault,
      serve = (\<lambda>req. if url_of req = ''/index.html'' then Served
                      else Next (Some \<lparr>statusCode = Some 404, stack = Some ''NotFoundError''\<rparr>)),
      metrics_contentType = ''text/plain; version=0.0.4; charset=utf-8'',
      metrics_text = ''kimutichan_http_requests_total 0'',
      now_lookup = 1000,
      now_store = 1500\<rparr>"

definition get :: "string \<Rightarrow> request" where
  "get u = \<lparr>req_url = Some u, req_headers = [''accept-encoding'' \<mapsto> ''gzip, deflate'']\<rparr>"

text \<open>
  The response object of a request on the TLS server of index.js, and of a request handled
  by server.js: the socket is encrypted and carries neither \<^verbatim>\<open>_httpMessage\<close> nor
  \<^verbatim>\<open>serverResponse\<close>.
\<close>

definition tls_res :: response_object where
  "tls_res = \<lparr>socket_encrypted = True, httpMessage_headers = None,
              stream_responded = False, serverResponse = None\<rparr>"

text \<open>Two other shapes of the response object, for the branches of \<^verbatim>\<open>send\<close>.\<close>

definition plain_res :: response_object where
  "plain_res = \<lparr>socket_encrypted = False, httpMessage_headers = Some [''accept-encoding'' \<mapsto> ''gzip, deflate''],
                stream_responded = False, serverResponse = None\<rparr>"

definition gzip_res :: response_object where
  "gzip_res = \<lparr>socket_encrypted = True, httpMessage_headers = Some [''accept-encoding'' \<mapsto> ''gzip, deflate''],
               stream_responded = False, serverResponse = Some [''accept-encoding'' \<mapsto> ''gzip'']\<rparr>"

text \<open>A later request, half a second after the store of the first.\<close>

definition later_env :: env where
  "later_env = example_env\<lparr>now_lookup := 2000, now_store := 2500\<rparr>"

text \<open>
  The state after a first decode-proxy request, for an empty and for a non-empty body
  (the latter in both entry points, with the response object of a TLS request).
\<close>

definition after_empty :: world where
  "after_empty = index_server example_env (get ''/proxy/example.com/empty'') plain_res (fresh empty_world)"



definition after_page :: world where
  "after_page = index_server example_env (get ''/proxy/example.com/page'') tls_res (fresh empty_world)"

definition after_page_server :: world where
  "after_page_server = snd (createBareHandler example_env (get ''/proxy/example.com/page'') tls_res (fresh empty_world))"

section \<open>The meta rewrite is idempotent\<close>

lemma match_meta_canonical: "match_meta (meta_utf8 @ r) = Some r"
  by (simp add: match_meta_def meta_utf8_def startsWith_ci_def lower_ascii_def)

lemma charset_inside_append: "charset_inside ys \<Longrightarrow> charset_inside (xs @ ys)"
  by (induction xs) auto

lemma startsWith_ci_meta: "startsWith_ci s ''<meta'' \<longleftrightarrow> map lower_ascii (take 5 s) = ''<meta''"
proof -
  have "length ''<meta'' = 5" by simp
  then show ?thesis unfolding startsWith_ci_def by metis
qed

lemma startsWith_ci_meta_no_gt:
  assumes "startsWith_ci s ''<meta''"
  shows "CHR ''>'' \<notin> set (take 5 s)" and "length s \<ge> 5"
proof -
  from assms have e: "map lower_ascii (take 5 s) = ''<meta''" by (simp only: startsWith_ci_meta)
  show "CHR ''>'' \<notin> set (take 5 s)"
  proof
    assume "CHR ''>'' \<in> set (take 5 s)"
    then have "lower_ascii (CHR ''>'') \<in> set (map lower_ascii (take 5 s))" by (metis imageI set_map)
    with e show False by (simp add: lower_ascii_def)
  qed
  from e have "length (map lower_ascii (take 5 s)) = 5" by simp
  then show "length s \<ge> 5" by simp
qed

text \<open>Whether a match exists at the head is decided by the text up to the first \<^verbatim>\<open>>\<close>.\<close>

lemma match_meta_None_prefix_gt:
  assumes "CHR ''>'' \<in> set p"
  shows "match_meta (p @ x) = None \<longleftrightarrow> match_meta (p @ y) = None"
proof -
  from assms obtain p1 p2 where p: "p = p1 @ CHR ''>'' # p2" and n: "CHR ''>'' \<notin> set p1"
    by (meson split_list_first)
  show ?thesis
  proof (cases "length p1 < 5")
    case True
    have "\<not> startsWith_ci (p @ z) ''<meta''" for z
    proof
      assume "startsWith_ci (p @ z) ''<meta''"
      then have "CHR ''>'' \<notin> set (take 5 (p @ z))" by (rule startsWith_ci_meta_no_gt)
      moreover have "take 5 ((p1 @ [CHR ''>'']) @ (p2 @ z)) = (p1 @ [CHR ''>'']) @ take (5 - length (p1 @ [CHR ''>''])) (p2 @ z)"
        using True by (simp only: take_append) simp
      then have "take 5 (p @ z) = p1 @ CHR ''>'' # take (5 - Suc (length p1)) (p2 @ z)"
        by (simp add: p)
      ultimately show False by (simp del: take_append)
    qed
    then show ?thesis by (simp add: match_meta_def)
  next
    case False
    then have l: "5 \<le> length p1" by simp
    have t: "take 5 (p @ z) = take 5 p1" for z using l by (simp add: p)
    have d: "drop 5 (p @ z) = drop 5 p1 @ CHR ''>'' # p2 @ z" for z using l by (simp add: p)
    have n': "CHR ''>'' \<notin> set (drop 5 p1)" using n by (meson in_set_dropD)
    have tw: "takeWhile (\<lambda>x. x \<noteq> CHR ''>'') (drop 5 (p @ z)) = drop 5 p1" for z
      unfolding d using n' by (subst takeWhile_append2) auto
    have dw: "dropWhile (\<lambda>x. x \<noteq> CHR ''>'') (drop 5 (p @ z)) = CHR ''>'' # p2 @ z" for z
      unfolding d using n' by (subst dropWhile_append2) auto
    show ?thesis
      unfolding match_meta_def Let_def startsWith_ci_meta t tw dw by simp
  qed
qed

lemma match_meta_SomeD:
  assumes "match_meta m = Some rest"
  obtains h seg where "m = h @ seg @ CHR ''>'' # rest" and "length h = 5"
    and "CHR ''>'' \<notin> set seg" and "charset_inside seg"
proof -
  let ?t = "drop 5 m"
  let ?seg = "takeWhile (\<lambda>x. x \<noteq> CHR ''>'') ?t"
  let ?rest = "dropWhile (\<lambda>x. x \<noteq> CHR ''>'') ?t"
  from assms have sw: "startsWith_ci m ''<meta''"
    by (simp add: match_meta_def split: if_splits)
  with assms have r: "?rest \<noteq> []" and s: "?seg \<noteq> []" and c: "charset_inside (tl ?seg)"
    and e: "rest = tl ?rest"
    by (simp_all add: match_meta_def Let_def split: if_splits)
  from r have "hd ?rest = CHR ''>''" using hd_dropWhile [of "\<lambda>x. x \<noteq> CHR ''>''" ?t] by simp
  with r e have r': "?rest = CHR ''>'' # rest" by (metis list.collapse)
  have "m = take 5 m @ ?seg @ ?rest" by simp
  then have 1: "m = take 5 m @ ?seg @ CHR ''>'' # rest" by (simp only: r')
  have 2: "length (take 5 m) = 5" using startsWith_ci_meta_no_gt(2) [OF sw] by simp
  have 3: "CHR ''>'' \<notin> set ?seg" by (metis (mono_tags, lifting) set_takeWhileD)
  from s obtain a where "?seg = a # tl ?seg" by (metis list.collapse)
  with c have 4: "charset_inside ?seg" by (metis charset_inside.simps(2))
  from 1 2 3 4 show thesis by (rule that)
qed

lemma not_startsWith_ci_short:
  assumes "p \<noteq> []" and "length p < 5"
  shows "\<not> startsWith_ci (p @ meta_utf8 @ r) ''<meta''"
proof
  assume "startsWith_ci (p @ meta_utf8 @ r) ''<meta''"
  then have e: "map lower_ascii (take 5 (p @ meta_utf8 @ r)) = ''<meta''"
    by (simp only: startsWith_ci_meta)
  have l: "length p < length (take 5 (p @ meta_utf8 @ r))"
    using assms by (simp add: meta_utf8_def)
  have "(p @ meta_utf8 @ r) ! length p = CHR ''<''" by (simp add: meta_utf8_def)
  then have "take 5 (p @ meta_utf8 @ r) ! length p = CHR ''<''"
    using assms by (simp del: take_append)
  then have "map lower_ascii (take 5 (p @ meta_utf8 @ r)) ! length p = lower_ascii (CHR ''<'')"
    using l by (simp only: nth_map)
  then have n: "''<meta'' ! length p = CHR ''<''" by (simp only: e) (simp add: lower_ascii_def)
  from assms have "0 < length p" by simp
  with assms have "length p = 1 \<or> length p = 2 \<or> length p = 3 \<or> length p = 4"
    by arith
  with n show False by auto
qed

lemma match_meta_None_rewrite:
  assumes p: "p \<noteq> []" and m: "match_meta m = Some rest" and n: "match_meta (p @ m) = None"
  shows "match_meta (p @ meta_utf8 @ rest) = None"
proof (cases "CHR ''>'' \<in> set p")
  case True
  then show ?thesis using n match_meta_None_prefix_gt [of p m "meta_utf8 @ rest"] by simp
next
  case False
  show ?thesis
  proof (cases "length p < 5")
    case True
    then show ?thesis using p not_startsWith_ci_short [of p rest] by (simp add: match_meta_def)
  next
    case long: False
    then have t: "take 5 (p @ z) = take 5 p" for z by simp
    show ?thesis
    proof (cases "startsWith_ci p ''<meta''")
      case no: False
      then show ?thesis unfolding match_meta_def startsWith_ci_meta t by simp
    next
      case True
      from m obtain h seg where m': "m = h @ seg @ CHR ''>'' # rest" and h: "length h = 5"
        and g: "CHR ''>'' \<notin> set seg" and c: "charset_inside seg"
        by (rule match_meta_SomeD)
      from m have swm: "startsWith_ci m ''<meta''" by (simp add: match_meta_def split: if_splits)
      have "take 5 m = h" using m' h by simp
      with startsWith_ci_meta_no_gt(1) [OF swm] have gh: "CHR ''>'' \<notin> set h" by simp
      let ?seg = "drop 5 p @ h @ seg"
      have d: "drop 5 (p @ m) = ?seg @ CHR ''>'' # rest" using long by (simp add: m')
      have ng: "CHR ''>'' \<notin> set ?seg" using False g gh by (auto dest: in_set_dropD)
      have tw: "takeWhile (\<lambda>x. x \<noteq> CHR ''>'') (drop 5 (p @ m)) = ?seg"
        unfolding d using ng by (subst takeWhile_append2) auto
      have dw: "dropWhile (\<lambda>x. x \<noteq> CHR ''>'') (drop 5 (p @ m)) = CHR ''>'' # rest"
        unfolding d using ng by (subst dropWhile_append2) auto
      have ne: "drop 5 p @ h \<noteq> []" using h by auto
      have "tl ?seg = tl (drop 5 p @ h) @ seg" using ne by (metis append_assoc tl_append2)
      then have ci: "charset_inside (tl ?seg)" using c by (simp only: charset_inside_append)
      have "match_meta (p @ m) = Some rest"
        unfolding match_meta_def Let_def startsWith_ci_meta t tw dw
        using True ci ne by (simp add: startsWith_ci_meta)
      with n show ?thesis by simp
    qed
  qed
qed

lemma match_meta_None_replace:
  "p \<noteq> [] \<Longrightarrow> match_meta (p @ cs) = None \<Longrightarrow> match_meta (p @ replace_meta cs) = None"
proof (induction cs arbitrary: p)
  case Nil
  then show ?case by simp
next
  case (Cons c cs)
  show ?case
  proof (cases "match_meta (c # cs)")
    case None
    have "match_meta ((p @ [c]) @ replace_meta cs) = None"
      using Cons.prems by (intro Cons.IH) simp_all
    with None show ?thesis by simp
  next
    case (Some rest)
    then show ?thesis using Cons.prems match_meta_None_rewrite [of p "c # cs" rest] by simp
  qed
qed

lemma replace_meta_idem: "replace_meta (replace_meta d) = replace_meta d"
proof (induction d)
  case Nil
  then show ?case by simp
next
  case (Cons c cs)
  show ?case
  proof (cases "match_meta (c # cs)")
    case None
    then have "match_meta (c # replace_meta cs) = None"
      using match_meta_None_replace [of "[c]" cs] by simp
    with None Cons.IH show ?thesis by simp
  next
    case (Some rest)
    have "replace_meta (meta_utf8 @ rest) = meta_utf8 @ rest"
    proof -
      obtain a as where a: "meta_utf8 @ rest = a # as" by (simp add: meta_utf8_def)
      have "match_meta (a # as) = Some rest" using match_meta_canonical [of rest] by (simp only: a)
      then have "replace_meta (a # as) = meta_utf8 @ rest" by simp
      then show ?thesis by (simp only: a)
    qed
    with Some show ?thesis by simp
  qed
qed

lemma replace_meta_no_match: "\<not> meta_occurs d \<Longrightarrow> replace_meta d = d"
  by (induction d) auto

section \<open>The cache tier and the cached pipelines\<close>

lemma execute_eq: "execute e t w = (cluster_task e t, w\<lparr>calls := calls w @ [Execute t]\<rparr>)"
  by (simp add: execute_def bind_def called_def lift_def)

lemma fetch_text_eq:
  "\<exists>r. \<forall>w. fetch_text e t w = (r, w\<lparr>calls := calls w @ [Fetch t]\<rparr>)"
  by (cases "fetch e t"; cases "arrayBuffer (projr (fetch e t))";
      cases "decode_buffer e (content_type (projr (fetch e t))) (projr (arrayBuffer (projr (fetch e t))))")
     (simp_all add: fetch_text_def bind_def called_def lift_def return_def)

lemma cache_get_frame:
  assumes "cache_get e k w = (r, w')"
  shows "sent w' = sent w \<and> observed w' = observed w \<and> headers_set w' = headers_set w
    \<and> redis w' = redis w \<and> backend_calls w' = backend_calls w"
  using assms
  by (auto simp: cache_get_def bind_def memCache_get_def redis_get_def return_def Let_def backend_calls_def
      split: option.splits if_splits prod.splits sum.splits)


lemma cache_get_empty:
  assumes "memCache_value w k = None \<or> memCache_value w k = Some []"
    and "redis_value w k = None \<or> redis_value w k = Some []"
    and "redis_get_fault e k = None"
  shows "\<exists>r w'. cache_get e k w = (Inr r, w') \<and> (r = None \<or> r = Some [])"
  using assms
  by (auto simp: cache_get_def bind_def memCache_get_def redis_get_def return_def Let_def truthy_def
        memCache_value_def redis_value_def
      split: option.splits if_splits prod.splits sum.splits)

lemma cache_set_frame:
  assumes "cache_set e k v ttl w = (r, w')"
  shows "sent w' = sent w \<and> observed w' = observed w \<and> headers_set w' = headers_set w
    \<and> backend_calls w' = backend_calls w"
  using assms
  by (auto simp: cache_set_def bind_def memCache_set_def redis_set_def Let_def backend_calls_def
      split: option.splits if_splits prod.splits sum.splits)

lemma cache_set_stores:
  assumes "cache_set e k v ttl w = (Inr u, w')"
  shows "find (\<lambda>x. fst x = k) (memCache w') = Some (k, v, now_store e)"
    and "redis w' k = Some (v, now_store e + ttl * 1000)" and "0 < ttl"
  using assms
  by (auto simp: cache_set_def bind_def memCache_set_def redis_set_def Let_def lru_max_def
      split: option.splits if_splits prod.splits sum.splits)

lemma cached_frame:
  assumes work: "\<And>w. work w = (r, w\<lparr>calls := calls w @ [c]\<rparr>)"
    and run: "cached e k ttl work w = (res, w')"
  shows "sent w' = sent w \<and> observed w' = observed w \<and> headers_set w' = headers_set w"
  using run
  by (cases r)
     (auto simp: cached_def bind_def work return_def Let_def
           split: sum.splits option.splits if_splits prod.splits
           dest!: cache_get_frame cache_set_frame)




lemma cached_empty:
  assumes work: "\<And>w. work w = (r, w\<lparr>calls := calls w @ [c]\<rparr>)" and c: "is_backend_call c"
    and "memCache_value w k = None \<or> memCache_value w k = Some []"
    and "redis_value w k = None \<or> redis_value w k = Some []"
    and "redis_get_fault e k = None"
    and run: "cached e k ttl work w = (res, w')"
  shows "backend_calls w' = backend_calls w @ [c]" and "res = Inr v \<Longrightarrow> r = Inr v"
proof -
  from cache_get_empty [OF assms(3-5)] obtain g w1 where
    g: "cache_get e k w = (Inr g, w1)" and e: "g = None \<or> g = Some []" by blast
  note f = cache_get_frame [OF g]
  show "backend_calls w' = backend_calls w @ [c]"
    using run g e f c
    by (cases r)
       (auto simp: cached_def bind_def work return_def Let_def backend_calls_def
           split: sum.splits option.splits if_splits prod.splits
           dest!: cache_set_frame)
  show "res = Inr v \<Longrightarrow> r = Inr v"
    using run g e
    by (cases r)
       (auto simp: cached_def bind_def work return_def Let_def
           split: sum.splits option.splits if_splits prod.splits)
qed



section \<open>The handlers on a request that goes through the cache\<close>

lemma internal_error_response_simps:
  "internal_error_response [] = Ended 500 [Content_Type text_plain] (Plain ''Internal Error'')"
  "internal_error_response [Content_Type t, Cache_Control_public_max_age n] =
     Ended 500 [Content_Type text_plain, Cache_Control_public_max_age n] (Plain ''Internal Error'')"
  by (simp_all add: internal_error_response_def put_header_def)

lemma send_index_eq:
  assumes "headers_set w = []"
  shows "send_index res d ty n w =
    (case accept_index res of
       Inl err \<Rightarrow> (Inl err, w\<lparr>headers_set := [Content_Type ty, Cache_Control_public_max_age n]\<rparr>)
     | Inr a \<Rightarrow> (Inr (), w\<lparr>headers_set := (if gzip_index res
                               then [Content_Type ty, Cache_Control_public_max_age n, Content_Encoding ''gzip'']
                               else [Content_Type ty, Cache_Control_public_max_age n]),
                           sent := sent w @ [encoded (gzip_index res) d ty n]\<rparr>))"
  using assms
  by (cases "accept_index res")
     (auto simp: send_index_def gzip_index_def encoded_def setHeader_def res_end_def put_header_def
        bind_def lift_def truthy_def Let_def split: option.splits)

lemma send_server_eq:
  assumes "headers_set w = []"
  shows "send_server res d ty n w =
    (Inr (), w\<lparr>headers_set := (if gzip_server res
                               then [Content_Type ty, Cache_Control_public_max_age n, Content_Encoding ''gzip'']
                               else [Content_Type ty, Cache_Control_public_max_age n]),
              sent := sent w @ [encoded (gzip_server res) d ty n]\<rparr>)"
  using assms
  by (auto simp: send_server_def gzip_server_def encoded_def setHeader_def res_end_def put_header_def
        bind_def Let_def split: option.splits)

lemma pipeline_index_work:
  assumes "pipeline_index e req = Some (key, ttl, work)"
  shows "\<exists>r c. is_backend_call c \<and> (\<forall>w. work w = (r, w\<lparr>calls := calls w @ [c]\<rparr>))"
proof (cases "startsWith (url_of req) ''/puppeteer?''")
  case True
  with assms obtain t where "work = execute e t"
    by (auto simp: pipeline_index_def Let_def split: option.splits if_splits)
  then show ?thesis using execute_eq [of e t] is_backend_call.simps(1) by blast
next
  case False
  with assms have "work = fetch_text e (proxy_target_replace (url_of req))"
    by (auto simp: pipeline_index_def Let_def split: option.splits if_splits)
  then show ?thesis using fetch_text_eq [of e "proxy_target_replace (url_of req)"] is_backend_call.simps(2) by blast
qed

lemma pipeline_server_work:
  assumes "pipeline_server e req = Some (key, ttl, work)"
  shows "\<exists>r c. is_backend_call c \<and> (\<forall>w. work w = (r, w\<lparr>calls := calls w @ [c]\<rparr>))"
proof (cases "startsWith (url_of req) ''/puppeteer?''")
  case True
  with assms obtain t where "work = execute e t"
    by (auto simp: pipeline_server_def Let_def split: option.splits if_splits)
  then show ?thesis using execute_eq [of e t] is_backend_call.simps(1) by blast
next
  case False
  with assms have "work = fetch_text e (proxy_target_slice (url_of req))"
    by (auto simp: pipeline_server_def Let_def split: option.splits if_splits)
  then show ?thesis using fetch_text_eq [of e "proxy_target_slice (url_of req)"] is_backend_call.simps(2) by blast
qed

lemma request_listener_pipeline:
  assumes "pipeline_index e req = Some (key, ttl, work)"
  shows "request_listener e req res = answer_index e res (handler_index e req) key ttl work"
  using assms
  by (auto simp: pipeline_index_def request_listener_def answer_index_def puppeteer_index_def
        decode_index_def render_html_def proxied_text_def Let_def
      split: option.splits if_splits)

lemma createBareHandler_pipeline:
  assumes "pipeline_server e req = Some (key, ttl, work)"
  shows "createBareHandler e req res = answer_server e res (handler_server e req) key ttl work"
  using assms
  by (auto simp: pipeline_server_def createBareHandler_def answer_server_def puppeteer_server_def
        decode_server_def render_html_def proxied_text_def handler_server_def Let_def
      split: option.splits if_splits)

lemma answer_index_char:
  assumes work: "\<And>w. work w = (r, w\<lparr>calls := calls w @ [c]\<rparr>)"
    and run: "cached e key ttl work w = (res, w1)"
    and h: "headers_set w = []"
  shows "\<exists>w'. answer_index e rs h key ttl work w = (Inr (), w')
     \<and> memCache w' = memCache w1 \<and> redis w' = redis w1 \<and> calls w' = calls w1
     \<and> sent w' = sent w @ [answered_index rs ttl res]
     \<and> observed w' = observed w @ [(h, answered_code rs res)]"
proof -
  note f = cached_frame [OF work run]
  have h1: "headers_set w1 = []" using f h by simp
  show ?thesis
  proof (cases res)
    case (Inl err)
    then show ?thesis using f run h1
      by (simp add: answer_index_def try_catch_def bind_def observe_def internal_error_def
          writeHead_end_def answered_index_def answered_code_def internal_error_response_def)
  next
    case (Inr v)
    then show ?thesis using f run
      by (cases "accept_index rs")
         (simp_all add: answer_index_def try_catch_def bind_def observe_def internal_error_def
          writeHead_end_def answered_index_def answered_code_def internal_error_response_def
          send_index_eq [OF h1])
  qed
qed

lemma answer_server_char:
  assumes work: "\<And>w. work w = (r, w\<lparr>calls := calls w @ [c]\<rparr>)"
    and run: "cached e key ttl work w = (res, w1)"
    and h: "headers_set w = []"
  shows "case res of
      Inl err \<Rightarrow> answer_server e rs h key ttl work w = (Inl err, w1)
    | Inr v \<Rightarrow> (\<exists>w'. answer_server e rs h key ttl work w = (Inr (), w')
         \<and> memCache w' = memCache w1 \<and> redis w' = redis w1 \<and> calls w' = calls w1
         \<and> sent w' = sent w @ [encoded (gzip_server rs) v text_html ttl]
         \<and> observed w' = observed w @ [(h, Status 200)])"
proof -
  note f = cached_frame [OF work run]
  have h1: "headers_set w1 = []" using f h by simp
  show ?thesis using f run
    by (cases res) (simp_all add: answer_server_def bind_def send_server_eq [OF h1] observe_def)
qed

section \<open>Unfolding the handlers\<close>

lemmas handler_defs =
  index_server_def request_listener_def metrics_listener_def handler_index_def puppeteer_index_def
  decode_index_def bare_index_def internal_error_def serve_static_def route_def
  createBareHandler_def handler_server_def metrics_server_def puppeteer_server_def
  decode_server_def bare_server_def

lemmas io_defs =
  bind_def return_def lift_def try_catch_def called_def end_response_def observe_def
  setHeader_def writeHead_end_def res_end_def put_header_def

lemmas example_defs = example_env_def example_param_def get_def plain_res_def gzip_res_def tls_res_def
  empty_world_def no_fault_def url_of_def startsWith_def fresh_def

section \<open>One request through the cache, in both entry points\<close>

lemma pipeline_index_not_metrics:
  "pipeline_index e req = Some p \<Longrightarrow> req_url req \<noteq> Some ''/metrics''"
  by (auto simp: pipeline_index_def url_of_def startsWith_def Let_def split: if_splits)

lemma index_server_pipeline:
  assumes "pipeline_index e req = Some (key, ttl, work)"
  shows "index_server e req res w = snd (answer_index e res (handler_index e req) key ttl work w)"
  using pipeline_index_not_metrics [OF assms]
  by (simp add: index_server_def request_listener_pipeline [OF assms] metrics_listener_def return_def)


lemma encoded_body: "encoded g v ty n = Ended st hs b \<Longrightarrow> gunzip b = v \<and> st = 200"
  by (cases g) (auto simp: encoded_def)

lemma answered_index_200:
  assumes "answered_index rs ttl res = Ended 200 hs b"
  shows "\<exists>a. accept_index rs = Inr a \<and> res = Inr (gunzip b) \<and> Ended 200 hs b = encoded (gzip_index rs) (gunzip b) text_html ttl"
proof (cases res)
  case (Inl err)
  with assms show ?thesis by (simp add: answered_index_def internal_error_response_def)
next
  case (Inr v)
  show ?thesis
  proof (cases "accept_index rs")
    case (Inl err)
    with assms Inr show ?thesis by (simp add: answered_index_def internal_error_response_def)
  next
    case a: (Inr a)
    with assms Inr have e: "encoded (gzip_index rs) v text_html ttl = Ended 200 hs b"
      by (simp add: answered_index_def)
    from encoded_body [OF e] have "gunzip b = v" by simp
    with e a Inr show ?thesis by simp
  qed
qed

lemma index_run:
  assumes p: "pipeline_index e req = Some (key, ttl, work)"
  obtains r c res w1 where "is_backend_call c" and "\<And>w0. work w0 = (r, w0\<lparr>calls := calls w0 @ [c]\<rparr>)"
    and "cached e key ttl work (fresh w) = (res, w1)"
    and "memCache (index_server e req rs (fresh w)) = memCache w1"
    and "redis (index_server e req rs (fresh w)) = redis w1"
    and "calls (index_server e req rs (fresh w)) = calls w1"
    and "sent (index_server e req rs (fresh w)) = [answered_index rs ttl res]"
    and "observed (index_server e req rs (fresh w)) = [(handler_index e req, answered_code rs res)]"
proof -
  from pipeline_index_work [OF p] obtain r c where c: "is_backend_call c"
    and work: "\<And>w0. work w0 = (r, w0\<lparr>calls := calls w0 @ [c]\<rparr>)" by blast
  obtain res w1 where run: "cached e key ttl work (fresh w) = (res, w1)"
    by (cases "cached e key ttl work (fresh w)")
  have h: "headers_set (fresh w) = []" by (simp add: fresh_def)
  from answer_index_char [OF work run h, of rs "handler_index e req"]
  obtain w' where a: "answer_index e rs (handler_index e req) key ttl work (fresh w) = (Inr (), w')"
    and f: "memCache w' = memCache w1" "redis w' = redis w1" "calls w' = calls w1"
      "sent w' = sent (fresh w) @ [answered_index rs ttl res]"
      "observed w' = observed (fresh w) @ [(handler_index e req, answered_code rs res)]"
    by blast
  have i: "index_server e req rs (fresh w) = w'"
    by (simp add: index_server_pipeline [OF p] a)
  show thesis
    by (rule that [OF c work run]) (simp_all add: i f, simp_all add: fresh_def)
qed

lemma server_run:
  assumes p: "pipeline_server e req = Some (key, ttl, work)"
  obtains r c res w1 where "is_backend_call c" and "\<And>w0. work w0 = (r, w0\<lparr>calls := calls w0 @ [c]\<rparr>)"
    and "cached e key ttl work (fresh w) = (res, w1)"
    and "\<And>err. res = Inl err \<Longrightarrow> createBareHandler e req rs (fresh w) = (Inl err, w1)"
    and "\<And>v. res = Inr v \<Longrightarrow> fst (createBareHandler e req rs (fresh w)) = Inr ()
          \<and> memCache (snd (createBareHandler e req rs (fresh w))) = memCache w1
          \<and> redis (snd (createBareHandler e req rs (fresh w))) = redis w1
          \<and> calls (snd (createBareHandler e req rs (fresh w))) = calls w1
          \<and> sent (snd (createBareHandler e req rs (fresh w))) = [encoded (gzip_server rs) v text_html ttl]
          \<and> observed (snd (createBareHandler e req rs (fresh w))) = [(handler_server e req, Status 200)]"
proof -
  from pipeline_server_work [OF p] obtain r c where c: "is_backend_call c"
    and work: "\<And>w0. work w0 = (r, w0\<lparr>calls := calls w0 @ [c]\<rparr>)" by blast
  obtain res w1 where run: "cached e key ttl work (fresh w) = (res, w1)"
    by (cases "cached e key ttl work (fresh w)")
  have h: "headers_set (fresh w) = []" by (simp add: fresh_def)
  note ch = answer_server_char [OF work run h, of rs "handler_server e req"]
  note cf = cached_frame [OF work run]
  have 1: "createBareHandler e req rs (fresh w) = (Inl err, w1)" if "res = Inl err" for err
    using ch that by (simp add: createBareHandler_pipeline [OF p])
  have 2: "fst (createBareHandler e req rs (fresh w)) = Inr ()
          \<and> memCache (snd (createBareHandler e req rs (fresh w))) = memCache w1
          \<and> redis (snd (createBareHandler e req rs (fresh w))) = redis w1
          \<and> calls (snd (createBareHandler e req rs (fresh w))) = calls w1
          \<and> sent (snd (createBareHandler e req rs (fresh w))) = [encoded (gzip_server rs) v text_html ttl]
          \<and> observed (snd (createBareHandler e req rs (fresh w))) = [(handler_server e req, Status 200)]"
    if "res = Inr v" for v
    using ch that by (auto simp: createBareHandler_pipeline [OF p] fresh_def)
  show thesis by (rule that [OF c work run 1 2])
qed


text \<open>
  When the work behind the cache fails, index.js answers with status 500 and observes 500;
  server.js rejects, with nothing sent and nothing observed.
\<close>

lemma index_failure:
  assumes p: "pipeline_index e req = Some (key, ttl, work)"
    and f: "fst (cached e key ttl work (fresh w)) = Inl err"
  shows "sent (index_server e req res (fresh w)) = [Ended 500 [Content_Type text_plain] (Plain ''Internal Error'')]"
    and "observed (index_server e req res (fresh w)) = [(handler_index e req, Status 500)]"
proof -
  have "sent (index_server e req res (fresh w)) = [Ended 500 [Content_Type text_plain] (Plain ''Internal Error'')]
      \<and> observed (index_server e req res (fresh w)) = [(handler_index e req, Status 500)]"
    by (rule index_run [OF p, of w res])
       (use f in \<open>simp add: answered_index_def answered_code_def internal_error_response_simps\<close>)
  then show "sent (index_server e req res (fresh w)) = [Ended 500 [Content_Type text_plain] (Plain ''Internal Error'')]"
    and "observed (index_server e req res (fresh w)) = [(handler_index e req, Status 500)]"
    by simp_all
qed

lemma server_failure:
  assumes p: "pipeline_server e req = Some (key, ttl, work)"
    and f: "fst (cached e key ttl work (fresh w)) = Inl err"
  shows "fst (createBareHandler e req res (fresh w)) = Inl err"
    and "sent (snd (createBareHandler e req res (fresh w))) = []"
    and "observed (snd (createBareHandler e req res (fresh w))) = []"
proof -
  have "fst (createBareHandler e req res (fresh w)) = Inl err
      \<and> sent (snd (createBareHandler e req res (fresh w))) = []
      \<and> observed (snd (createBareHandler e req res (fresh w))) = []"
  proof (rule server_run [OF p, of w res])
    fix r c res0 w1
    assume work: "\<And>w0. work w0 = (r, w0\<lparr>calls := calls w0 @ [c]\<rparr>)"
      and run: "cached e key ttl work (fresh w) = (res0, w1)"
      and bad: "\<And>err. res0 = Inl err \<Longrightarrow> createBareHandler e req res (fresh w) = (Inl err, w1)"
    from f run have "res0 = Inl err" by simp
    with bad cached_frame [OF work run] show ?thesis by (simp add: fresh_def)
  qed
  then show "fst (createBareHandler e req res (fresh w)) = Inl err"
    and "sent (snd (createBareHandler e req res (fresh w))) = []"
    and "observed (snd (createBareHandler e req res (fresh w))) = []"
    by simp_all
qed

section \<open>Requests that do not go through the cache\<close>







lemma pipeline_index_None:
  "\<not> startsWith (url_of req) ''/puppeteer?'' \<Longrightarrow> \<not> startsWith (url_of req) ''/proxy/''
   \<Longrightarrow> pipeline_index e req = None"
  by (simp add: pipeline_index_def)

lemma pipeline_server_None:
  "\<not> startsWith (url_of req) ''/puppeteer?'' \<Longrightarrow> \<not> startsWith (url_of req) ''/proxy/''
   \<Longrightarrow> pipeline_server e req = None"
  by (simp add: pipeline_server_def)



section \<open>The example runs\<close>

lemmas run_defs = handler_defs io_defs example_defs proxied_text_def render_html_def cached_def
  cache_get_def cache_set_def memCache_get_def redis_get_def memCache_set_def redis_set_def truthy_def
  fetch_text_def execute_def cluster_task_def proxy_target_replace_def proxy_target_slice_def
  send_index_def accept_index_def send_server_def accepts_server_def decode_buffer_def
  declared_charset_def startsWith_ci_def lower_ascii_def toLowerCase_def toLowerCase_char_def
  match_meta_def lru_max_def lru_ttl_def text_html_def text_plain_def backend_calls_def Let_def

lemma after_empty_eq:
  "after_empty = \<lparr>memCache = [(''px:https://example.com/empty'', [], 1500)],
      redis = [''px:https://example.com/empty'' \<mapsto> ([], 61500)],
      sent = [Ended 200 [Content_Type text_html, Cache_Control_public_max_age 60] (Plain [])],
      observed = [(''decode'', Status 200)],
      calls = [MemGet ''px:https://example.com/empty'', RedisGet ''px:https://example.com/empty'',
               Fetch ''https://example.com/empty'', MemSet ''px:https://example.com/empty'',
               RedisSet ''px:https://example.com/empty'' 60],
      headers_set = [Content_Type text_html, Cache_Control_public_max_age 60]\<rparr>"
  by (simp add: after_empty_def handler_defs io_defs example_defs proxied_text_def cached_def cache_get_def cache_set_def
      memCache_get_def redis_get_def memCache_set_def redis_set_def truthy_def fetch_text_def 
      proxy_target_replace_def send_index_def accept_index_def decode_buffer_def declared_charset_def
      lru_max_def Let_def)

lemma after_page_eq:
  "after_page = \<lparr>memCache = [(''px:https://example.com/page'', ''hello'', 1500)],
      redis = [''px:https://example.com/page'' \<mapsto> (''hello'', 61500)],
      sent = [Ended 500 [Content_Type text_plain, Cache_Control_public_max_age 60] (Plain ''Internal Error'')],
      observed = [(''decode'', Status 500)],
      calls = [MemGet ''px:https://example.com/page'', RedisGet ''px:https://example.com/page'',
               Fetch ''https://example.com/page'', MemSet ''px:https://example.com/page'',
               RedisSet ''px:https://example.com/page'' 60],
      headers_set = [Content_Type text_html, Cache_Control_public_max_age 60]\<rparr>"
  by (simp add: after_page_def handler_defs io_defs example_defs proxied_text_def cached_def cache_get_def cache_set_def
      memCache_get_def redis_get_def memCache_set_def redis_set_def truthy_def fetch_text_def 
      proxy_target_replace_def send_index_def accept_index_def decode_buffer_def declared_charset_def
      startsWith_ci_def lower_ascii_def toLowerCase_def toLowerCase_char_def match_meta_def
      lru_max_def Let_def)

lemma after_page_server_eq:
  "after_page_server = \<lparr>memCache = [(''px:https://example.com/page'', ''hello'', 1500)],
      redis = [''px:https://example.com/page'' \<mapsto> (''hello'', 61500)],
      sent = [Ended 200 [Content_Type text_html, Cache_Control_public_max_age 60] (Plain ''hello'')],
      observed = [(''decode'', Status 200)],
      calls = [MemGet ''px:https://example.com/page'', RedisGet ''px:https://example.com/page'',
               Fetch ''https://example.com/page'', MemSet ''px:https://example.com/page'',
               RedisSet ''px:https://example.com/page'' 60],
      headers_set = [Content_Type text_html, Cache_Control_public_max_age 60]\<rparr>"
  by (simp add: after_page_server_def run_defs)



section \<open>The charset pattern\<close>

lemma lower_ascii_any_case:
  assumes "\<not> (65 \<le> (of_char p :: nat) \<and> (of_char p :: nat) \<le> 90)"
  shows "lower_ascii x = p \<longleftrightarrow> any_case p x"
proof
  assume l: "lower_ascii x = p"
  show "any_case p x"
  proof (cases "65 \<le> (of_char x :: nat) \<and> (of_char x :: nat) \<le> 90")
    case True
    then have "p = char_of ((of_char x :: nat) + 32)" using l by (simp add: lower_ascii_def Let_def)
    then have "(of_char p :: nat) = of_char x + 32" using True by simp
    then show ?thesis using True by (simp add: any_case_def)
  next
    case False
    then have "x = p" using l by (auto simp: lower_ascii_def Let_def)
    then show ?thesis by (simp add: any_case_def)
  qed
next
  assume a: "any_case p x"
  show "lower_ascii x = p"
  proof (cases "x = p")
    case True
    then show ?thesis using assms by (auto simp: lower_ascii_def Let_def)
  next
    case False
    with a have r: "97 \<le> (of_char p :: nat)" "(of_char p :: nat) \<le> 122" "(of_char x :: nat) + 32 = of_char p"
      by (auto simp: any_case_def)
    then have "65 \<le> (of_char x :: nat) \<and> (of_char x :: nat) \<le> 90" by arith
    then have "lower_ascii x = char_of ((of_char x :: nat) + 32)" by (simp add: lower_ascii_def Let_def)
    also have "\<dots> = char_of (of_char p :: nat)" using r(3) by simp
    finally show ?thesis by simp
  qed
qed

lemma startsWith_ci_spells:
  assumes "\<forall>c \<in> set p. \<not> (65 \<le> (of_char c :: nat) \<and> (of_char c :: nat) \<le> 90)"
  shows "startsWith_ci s p \<longleftrightarrow> spells p (take (length p) s)"
proof -
  have "map lower_ascii t = p \<longleftrightarrow> list_all2 any_case p t" for t
    using assms
  proof (induction p arbitrary: t)
    case Nil
    then show ?case by simp
  next
    case (Cons a p)
    show ?case
    proof (cases t)
      case Nil
      then show ?thesis by simp
    next
      case (Cons x xs)
      have "lower_ascii x = a \<longleftrightarrow> any_case a x"
        using Cons.prems by (intro lower_ascii_any_case) simp
      moreover have "map lower_ascii xs = p \<longleftrightarrow> list_all2 any_case p xs"
        using Cons.prems by (intro Cons.IH) simp
      ultimately show ?thesis using Cons by simp
    qed
  qed
  then show ?thesis by (simp add: startsWith_ci_def spells_def)
qed

lemma startsWith_ci_charset: "startsWith_ci s ''charset='' \<longleftrightarrow> spells ''charset='' (take 8 s)"
proof -
  have l: "length ''charset='' = 8" by simp
  have "startsWith_ci s ''charset='' \<longleftrightarrow> spells ''charset='' (take (length ''charset='') s)"
    by (rule startsWith_ci_spells) simp
  then show ?thesis unfolding l .
qed

lemma takeWhile_nonempty: "takeWhile P xs \<noteq> [] \<longleftrightarrow> xs \<noteq> [] \<and> P (hd xs)"
  by (cases xs) auto

lemma charset_at_0:
  "charset_at s 0 \<longleftrightarrow>
     startsWith_ci s ''charset='' \<and> takeWhile (\<lambda>x. x \<noteq> CHR '';'') (drop 8 s) \<noteq> []"
proof -
  have "drop 8 s \<noteq> [] \<and> hd (drop 8 s) \<noteq> CHR '';'' \<longleftrightarrow> 8 < length s \<and> s ! 8 \<noteq> CHR '';''"
    by (cases "8 < length s") (simp_all add: hd_drop_conv_nth)
  then show ?thesis
    by (simp add: charset_at_def startsWith_ci_charset takeWhile_nonempty)
qed

lemma charset_at_Suc: "charset_at (c # cs) (Suc i) = charset_at cs i"
proof -
  have "Suc i + 8 = Suc (i + 8)" by simp
  then show ?thesis unfolding charset_at_def by (simp only: drop_Suc_Cons length_Cons nth_Cons_Suc Suc_less_eq)
qed

lemma charset_value_Suc: "charset_value (c # cs) (Suc i) = charset_value cs i"
proof -
  have "Suc i + 8 = Suc (i + 8)" by simp
  then show ?thesis unfolding charset_value_def by (simp only: drop_Suc_Cons)
qed

lemma charset_at_Nil: "\<not> charset_at [] i"
  by (simp add: charset_at_def)

text \<open>The function finds the leftmost position of the pattern and returns the value there.\<close>

lemma charset_match_leftmost:
  assumes "charset_at s i" and "\<forall>j<i. \<not> charset_at s j"
  shows "charset_match s = Some (charset_value s i)"
  using assms
proof (induction s arbitrary: i)
  case Nil
  then show ?case by (simp add: charset_at_Nil)
next
  case (Cons c cs)
  show ?case
  proof (cases i)
    case 0
    with Cons.prems(1) show ?thesis
      by (simp add: charset_at_0 charset_value_def Let_def)
  next
    case (Suc k)
    with Cons.prems(2) have n: "\<not> charset_at (c # cs) 0" by blast
    from Suc Cons.prems(1) have k: "charset_at cs k" by (simp add: charset_at_Suc)
    have "\<forall>j<k. \<not> charset_at cs j"
    proof (intro allI impI)
      fix j assume "j < k"
      then have "Suc j < i" using Suc by simp
      with Cons.prems(2) have "\<not> charset_at (c # cs) (Suc j)" by blast
      then show "\<not> charset_at cs j" by (simp add: charset_at_Suc)
    qed
    from Cons.IH [OF k this] have "charset_match cs = Some (charset_value cs k)" .
    moreover have "charset_match (c # cs) = charset_match cs"
      using n unfolding charset_at_0 by (auto simp: Let_def)
    ultimately show ?thesis using Suc by (simp only: charset_value_Suc)
  qed
qed

lemma charset_match_none:
  assumes "\<forall>i. \<not> charset_at s i"
  shows "charset_match s = None"
  using assms
proof (induction s)
  case Nil
  then show ?case by simp
next
  case (Cons c cs)
  from Cons.prems have n: "\<not> charset_at (c # cs) 0" by blast
  have "\<forall>i. \<not> charset_at cs i"
  proof
    fix i
    from Cons.prems have "\<not> charset_at (c # cs) (Suc i)" by blast
    then show "\<not> charset_at cs i" by (simp add: charset_at_Suc)
  qed
  from Cons.IH [OF this] have "charset_match cs = None" .
  moreover have "charset_match (c # cs) = charset_match cs"
    using n unfolding charset_at_0 by (auto simp: Let_def)
  ultimately show ?case by simp
qed

lemma fetch_text_run:
  assumes "fetch e t = Inr rsp" and "arrayBuffer rsp = Inr buf"
    and "decode_buffer e (content_type rsp) buf = Inr text"
  shows "fetch_text e t w = (Inr (replace_meta text), w\<lparr>calls := calls w @ [Fetch t]\<rparr>)"
  using assms by (simp add: fetch_text_def bind_def called_def lift_def return_def)

section \<open>A second request for a cached key\<close>





section \<open>The claims\<close>

text \<open>
  C1. A request whose path begins with \<^verbatim>\<open>/puppeteer?\<close> and whose \<^verbatim>\<open>url\<close> parameter is
  missing or empty is answered, by both entry points, with status 400 and the text
  \<^verbatim>\<open>Missing url\<close>, and one observation with code 400 is recorded; no collaborator is called
  (neither cache, nor the render backend) and the caches are left as they were.
\<close>

theorem C1_missing_url:
  assumes "startsWith (url_of req) ''/puppeteer?''"
    and "searchParam e (''http://dummy'' @ url_of req) ''url'' = None
         \<or> searchParam e (''http://dummy'' @ url_of req) ''url'' = Some []"
    and "searchParam e (''http://x'' @ url_of req) ''url'' = None
         \<or> searchParam e (''http://x'' @ url_of req) ''url'' = Some []"
  shows "index_server e req res (fresh w) =
           (fresh w)\<lparr>sent := [Ended 400 [Content_Type text_plain] (Plain ''Missing url'')],
                     observed := [(''puppeteer'', Status 400)]\<rparr>
         \<and> createBareHandler e req res (fresh w) =
           (Inr (), (fresh w)\<lparr>sent := [Ended 400 [Content_Type text_plain] (Plain ''Missing url'')],
                              observed := [(''puppeteer'', Status 400)]\<rparr>)
         \<and> calls (index_server e req res (fresh w)) = []
         \<and> calls (snd (createBareHandler e req res (fresh w))) = []
         \<and> memCache (index_server e req res (fresh w)) = memCache w
         \<and> redis (index_server e req res (fresh w)) = redis w
         \<and> memCache (snd (createBareHandler e req res (fresh w))) = memCache w
         \<and> redis (snd (createBareHandler e req res (fresh w))) = redis w"
proof -
  from assms(1) have m: "req_url req \<noteq> Some ''/metrics''"
    by (auto simp: url_of_def startsWith_def)
  have i: "index_server e req res (fresh w) =
           (fresh w)\<lparr>sent := [Ended 400 [Content_Type text_plain] (Plain ''Missing url'')],
                     observed := [(''puppeteer'', Status 400)]\<rparr>"
    using assms(1,2) m
    by (auto simp: index_server_def request_listener_def metrics_listener_def handler_index_def
          puppeteer_index_def io_defs fresh_def Let_def)
  have s: "createBareHandler e req res (fresh w) =
           (Inr (), (fresh w)\<lparr>sent := [Ended 400 [Content_Type text_plain] (Plain ''Missing url'')],
                              observed := [(''puppeteer'', Status 400)]\<rparr>)"
    using assms(1,3)
    by (auto simp: createBareHandler_def handler_server_def puppeteer_server_def io_defs fresh_def Let_def)
  show ?thesis unfolding i s by (simp add: fresh_def)
qed

theorem C1_missing_url_witness:
  "startsWith (url_of (get ''/puppeteer?url='')) ''/puppeteer?''
   \<and> searchParam example_env (''http://dummy'' @ url_of (get ''/puppeteer?url='')) ''url'' = Some []
   \<and> searchParam example_env (''http://x'' @ url_of (get ''/puppeteer?url='')) ''url'' = Some []
   \<and> sent (index_server example_env (get ''/puppeteer?url='') gzip_res (fresh empty_world))
       = [Ended 400 [Content_Type text_plain] (Plain ''Missing url'')]
   \<and> observed (snd (createBareHandler example_env (get ''/puppeteer?url='') gzip_res (fresh empty_world)))
       = [(''puppeteer'', Status 400)]
   \<and> calls (index_server example_env (get ''/puppeteer?url='') gzip_res (fresh empty_world)) = []"
proof -
  have 1: "startsWith (url_of (get ''/puppeteer?url='')) ''/puppeteer?''"
    by (simp add: example_defs)
  have 2: "searchParam example_env (''http://dummy'' @ url_of (get ''/puppeteer?url='')) ''url'' = Some []"
    by (simp add: example_defs)
  have 3: "searchParam example_env (''http://x'' @ url_of (get ''/puppeteer?url='')) ''url'' = Some []"
    by (simp add: example_defs)
  from C1_missing_url [OF 1 disjI2 [OF 2] disjI2 [OF 3], of gzip_res empty_world] 1 2 3
  show ?thesis by (simp add: fresh_def)
qed







text \<open>
  C4 fails on server.js. \<^verbatim>\<open>createBareHandler\<close> has no \<^verbatim>\<open>try\<close>: when the outbound fetch of a
  decode-proxy request fails, the promise is rejected, no response is ended and nothing is
  observed, where the request listener of index.js answers the same request with status 500
  and records a 500 observation.
\<close>

theorem C4_rejected_without_response:
  "fst (createBareHandler example_env (get ''/proxy/nowhere'') plain_res empty_world) = Inl NetworkError
   \<and> sent (snd (createBareHandler example_env (get ''/proxy/nowhere'') plain_res empty_world)) = []
   \<and> observed (snd (createBareHandler example_env (get ''/proxy/nowhere'') plain_res empty_world)) = []
   \<and> sent (index_server example_env (get ''/proxy/nowhere'') plain_res empty_world)
       = [Ended 500 [Content_Type text_plain] (Plain ''Internal Error'')]
   \<and> observed (index_server example_env (get ''/proxy/nowhere'') plain_res empty_world)
       = [(''decode'', Status 500)]"
  by (simp add: handler_defs io_defs example_defs proxied_text_def cached_def cache_get_def
      memCache_get_def redis_get_def truthy_def fetch_text_def proxy_target_slice_def
      proxy_target_replace_def Let_def)

text \<open>
  C5 fails in both files: neither \<^verbatim>\<open>send\<close> reads the \<^verbatim>\<open>Accept-Encoding\<close> header of the request.
  The client of \<^verbatim>\<open>GET /proxy/example.com/page\<close> sends \<^verbatim>\<open>Accept-Encoding: gzip, deflate\<close>.
  \<^verbatim>\<open>send\<close> of server.js looks for the header on \<^verbatim>\<open>res.socket.serverResponse\<close>, which a socket
  does not have, and answers with the uncompressed body and no \<^verbatim>\<open>Content-Encoding\<close>; the same
  response goes to a client that sends no \<^verbatim>\<open>Accept-Encoding\<close>. \<^verbatim>\<open>send\<close> of index.js reads
  \<^verbatim>\<open>socket._httpMessage.headers\<close> of the TLS socket, where \<^verbatim>\<open>_httpMessage\<close> is undefined: it
  throws, and the request is answered with status 500.
\<close>

theorem C5_accept_encoding_not_read:
  "req_headers (get ''/proxy/example.com/page'') ''accept-encoding'' = Some ''gzip, deflate''
   \<and> includes_str ''gzip, deflate'' ''gzip''
   \<and> createBareHandler example_env (get ''/proxy/example.com/page'') tls_res (fresh empty_world)
       = (Inr (), after_page_server)
   \<and> sent after_page_server
       = [Ended 200 [Content_Type text_html, Cache_Control_public_max_age 60] (Plain ''hello'')]
   \<and> sent (snd (createBareHandler example_env
               ((get ''/proxy/example.com/page'')\<lparr>req_headers := Map.empty\<rparr>) tls_res (fresh empty_world)))
       = sent after_page_server
   \<and> fst (send_index tls_res ''hello'' text_html 60 (fresh empty_world)) = Inl TypeError
   \<and> sent (index_server example_env (get ''/proxy/example.com/page'') tls_res (fresh empty_world))
       = [Ended 500 [Content_Type text_plain, Cache_Control_public_max_age 60] (Plain ''Internal Error'')]
   \<and> observed (index_server example_env (get ''/proxy/example.com/page'') tls_res (fresh empty_world))
       = [(''decode'', Status 500)]"
  unfolding after_page_eq [unfolded after_page_def] after_page_server_eq
  by (simp add: run_defs)

text \<open>
  C6. On a cache miss the decode-proxy branch of both files fetches the target and decodes
  the body (\<open>fetch_text\<close>). When the fetch and the read of the body succeed, the branch yields a
  text and no error: if the upstream \<^verbatim>\<open>content-type\<close> declares a charset (the leftmost place
  where \<^verbatim>\<open>charset=\<close> is spelled, in any case, before a character other than a semicolon), the
  body is decoded with the decoder of the lower-cased label up to the next semicolon, and with
  the UTF-8 decoder when the platform has no decoder for that label; if there is no
  \<^verbatim>\<open>content-type\<close> or it declares no charset, the body is decoded as UTF-8. The text then goes
  through the meta rewrite. \<^verbatim>\<open>toLowerCase\<close> lowers the ASCII and the Latin-1 capital letters.
\<close>

theorem C6_declared_charset_or_utf8:
  assumes u: "TextDecoder e ''utf-8'' = Some u"
    and f: "fetch e t = Inr rsp" and b: "arrayBuffer rsp = Inr buf"
  shows "(\<forall>ct i. content_type rsp = Some ct \<and> charset_at ct i \<and> (\<forall>j<i. \<not> charset_at ct j) \<longrightarrow>
            fetch_text e t w =
              (Inr (replace_meta (case TextDecoder e (toLowerCase (charset_value ct i)) of
                                    Some d \<Rightarrow> d buf
                                  | None \<Rightarrow> u buf)),
               w\<lparr>calls := calls w @ [Fetch t]\<rparr>)
            \<and> decode_buffer e (Some ct) buf =
                Inr (case TextDecoder e (toLowerCase (charset_value ct i)) of
                       Some d \<Rightarrow> d buf
                     | None \<Rightarrow> u buf))
       \<and> (content_type rsp = None \<or> (\<exists>ct. content_type rsp = Some ct \<and> (\<forall>i. \<not> charset_at ct i)) \<longrightarrow>
            fetch_text e t w = (Inr (replace_meta (u buf)), w\<lparr>calls := calls w @ [Fetch t]\<rparr>)
            \<and> decode_buffer e (content_type rsp) buf = Inr (u buf))
       \<and> toLowerCase ''Shift_JIS'' = ''shift_jis''
       \<and> toLowerCase [CHR 0xC9, CHR 0xD7, CHR 0xDE, CHR ''-'', CHR ''8''] = [CHR 0xE9, CHR 0xD7, CHR 0xFE, CHR ''-'', CHR ''8'']"
proof (intro conjI allI impI)
  fix ct i
  assume a: "content_type rsp = Some ct \<and> charset_at ct i \<and> (\<forall>j<i. \<not> charset_at ct j)"
  then have m: "charset_match ct = Some (charset_value ct i)"
    using charset_match_leftmost [of ct i] by blast
  have d: "decode_buffer e (Some ct) buf =
      Inr (case TextDecoder e (toLowerCase (charset_value ct i)) of Some d \<Rightarrow> d buf | None \<Rightarrow> u buf)"
    using m u by (simp add: decode_buffer_def declared_charset_def split: option.splits)
  then show "decode_buffer e (Some ct) buf =
      Inr (case TextDecoder e (toLowerCase (charset_value ct i)) of Some d \<Rightarrow> d buf | None \<Rightarrow> u buf)" .
  from a d have "decode_buffer e (content_type rsp) buf =
      Inr (case TextDecoder e (toLowerCase (charset_value ct i)) of Some d \<Rightarrow> d buf | None \<Rightarrow> u buf)"
    by simp
  from fetch_text_run [OF f b this]
  show "fetch_text e t w =
      (Inr (replace_meta (case TextDecoder e (toLowerCase (charset_value ct i)) of Some d \<Rightarrow> d buf | None \<Rightarrow> u buf)),
       w\<lparr>calls := calls w @ [Fetch t]\<rparr>)" .
next
  assume a: "content_type rsp = None \<or> (\<exists>ct. content_type rsp = Some ct \<and> (\<forall>i. \<not> charset_at ct i))"
  have "declared_charset (content_type rsp) = None"
  proof (cases "content_type rsp")
    case None
    then show ?thesis by (simp add: declared_charset_def)
  next
    case (Some ct)
    with a have "\<forall>i. \<not> charset_at ct i" by simp
    from charset_match_none [OF this] Some show ?thesis by (simp add: declared_charset_def)
  qed
  then show d: "decode_buffer e (content_type rsp) buf = Inr (u buf)"
    using u by (simp add: decode_buffer_def)
  from fetch_text_run [OF f b d]
  show "fetch_text e t w = (Inr (replace_meta (u buf)), w\<lparr>calls := calls w @ [Fetch t]\<rparr>)" .
next
  show "toLowerCase ''Shift_JIS'' = ''shift_jis''"
    by code_simp
  show "toLowerCase [CHR 0xC9, CHR 0xD7, CHR 0xDE, CHR ''-'', CHR ''8''] = [CHR 0xE9, CHR 0xD7, CHR 0xFE, CHR ''-'', CHR ''8'']"
    by code_simp
qed

theorem C6_declared_charset_or_utf8_witness:
  "TextDecoder example_env ''utf-8'' = Some (\<lambda>buf. buf)
   \<and> charset_at ''text/html; Charset=Shift_JIS;x=1'' 11
   \<and> \<not> charset_at ''text/html; Charset=Shift_JIS;x=1'' 0
   \<and> fetch_text example_env ''https://example.com/sjis'' empty_world
       = (Inr [CHR 0xA5, CHR ''1'', CHR ''0'', CHR ''0''], empty_world\<lparr>calls := [Fetch ''https://example.com/sjis'']\<rparr>)
   \<and> charset_at ''text/html; charset=X-Unknown'' 11
   \<and> fetch_text example_env ''https://example.com/page'' empty_world
       = (Inr ''hello'', empty_world\<lparr>calls := [Fetch ''https://example.com/page'']\<rparr>)
   \<and> fetch_text example_env ''https://example.com/empty'' empty_world
       = (Inr [], empty_world\<lparr>calls := [Fetch ''https://example.com/empty'']\<rparr>)"
proof -
  let ?sjis = "\<lparr>content_type = Some ''text/html; Charset=Shift_JIS;x=1'',
                arrayBuffer = Inr [CHR 0x5C, CHR ''1'', CHR ''0'', CHR ''0'']\<rparr>"
  let ?page = "\<lparr>content_type = Some ''text/html; charset=X-Unknown'', arrayBuffer = Inr ''hello''\<rparr>"
  let ?empty = "\<lparr>content_type = None, arrayBuffer = Inr []\<rparr>"
  have u: "TextDecoder example_env ''utf-8'' = Some (\<lambda>buf. buf)"
    by (simp add: example_env_def)
  have f1: "fetch example_env ''https://example.com/sjis'' = Inr ?sjis"
    by (simp add: example_env_def)
  have f2: "fetch example_env ''https://example.com/page'' = Inr ?page"
    by (simp add: example_env_def)
  have f3: "fetch example_env ''https://example.com/empty'' = Inr ?empty"
    by (simp add: example_env_def)
  have b1: "arrayBuffer ?sjis = Inr [CHR 0x5C, CHR ''1'', CHR ''0'', CHR ''0'']" by simp
  have b2: "arrayBuffer ?page = Inr ''hello''" by simp
  have b3: "arrayBuffer ?empty = Inr []" by simp
  have a1: "charset_at ''text/html; Charset=Shift_JIS;x=1'' 11"
    by (simp add: charset_at_def spells_def any_case_def)
  have n1: "\<forall>j<11. \<not> charset_at ''text/html; Charset=Shift_JIS;x=1'' j"
  proof (intro allI impI)
    fix j :: nat
    assume "j < 11"
    then have "j = 0 \<or> j = 1 \<or> j = 2 \<or> j = 3 \<or> j = 4 \<or> j = 5 \<or> j = 6 \<or> j = 7
      \<or> j = 8 \<or> j = 9 \<or> j = 10" by arith
    then show "\<not> charset_at ''text/html; Charset=Shift_JIS;x=1'' j"
      by (elim disjE) (simp_all add: charset_at_def spells_def any_case_def)
  qed
  have a2: "charset_at ''text/html; charset=X-Unknown'' 11"
    by (simp add: charset_at_def spells_def any_case_def)
  have n2: "\<forall>j<11. \<not> charset_at ''text/html; charset=X-Unknown'' j"
  proof (intro allI impI)
    fix j :: nat
    assume "j < 11"
    then have "j = 0 \<or> j = 1 \<or> j = 2 \<or> j = 3 \<or> j = 4 \<or> j = 5 \<or> j = 6 \<or> j = 7
      \<or> j = 8 \<or> j = 9 \<or> j = 10" by arith
    then show "\<not> charset_at ''text/html; charset=X-Unknown'' j"
      by (elim disjE) (simp_all add: charset_at_def spells_def any_case_def)
  qed
  have v1: "toLowerCase (charset_value ''text/html; Charset=Shift_JIS;x=1'' 11) = ''shift_jis''"
    by code_simp
  have v2: "toLowerCase (charset_value ''text/html; charset=X-Unknown'' 11) = ''x-unknown''"
    by code_simp
  have r1: "fetch_text example_env ''https://example.com/sjis'' empty_world
       = (Inr [CHR 0xA5, CHR ''1'', CHR ''0'', CHR ''0''], empty_world\<lparr>calls := [Fetch ''https://example.com/sjis'']\<rparr>)"
    using C6_declared_charset_or_utf8 [OF u f1 b1, of empty_world, THEN conjunct1, rule_format,
        of "''text/html; Charset=Shift_JIS;x=1''" 11, THEN conjunct1] a1 n1
    by (simp add: v1 example_env_def example_sjis_def empty_world_def match_meta_def
        startsWith_ci_def lower_ascii_def)
  have r2: "fetch_text example_env ''https://example.com/page'' empty_world
       = (Inr ''hello'', empty_world\<lparr>calls := [Fetch ''https://example.com/page'']\<rparr>)"
    using C6_declared_charset_or_utf8 [OF u f2 b2, of empty_world, THEN conjunct1, rule_format,
        of "''text/html; charset=X-Unknown''" 11, THEN conjunct1] a2 n2
    by (simp add: v2 example_env_def empty_world_def match_meta_def startsWith_ci_def lower_ascii_def)
  have r3: "fetch_text example_env ''https://example.com/empty'' empty_world
       = (Inr [], empty_world\<lparr>calls := [Fetch ''https://example.com/empty'']\<rparr>)"
    using C6_declared_charset_or_utf8 [OF u f3 b3, of empty_world, THEN conjunct2, THEN conjunct1]
    by (simp add: empty_world_def)
  from n1 have n0: "\<not> charset_at ''text/html; Charset=Shift_JIS;x=1'' 0" by simp
  from u a1 n0 r1 a2 r2 r3 show ?thesis by (intro conjI)
qed

text \<open>
  C7, as amended. The rewrite is idempotent: it changes nothing in a document it has
  already rewritten, nothing in a document that starts with the canonical declaration
  \<^verbatim>\<open><meta charset="utf-8">\<close>, and nothing in a document in which the pattern
  \<^verbatim>\<open><meta[^>]+charset=[^>]+>\<close> has no match.
\<close>

theorem C7_rewrite_idempotent:
  "replace_meta (replace_meta d) = replace_meta d
   \<and> replace_meta (meta_utf8 @ r) = meta_utf8 @ r
   \<and> (\<not> meta_occurs d \<longrightarrow> replace_meta d = d)"
proof -
  have "meta_utf8 @ r = replace_meta (CHR ''<'' # ''meta charset=x>'' @ r)"
    by (simp add: match_meta_def startsWith_ci_def lower_ascii_def)
  then have "replace_meta (meta_utf8 @ r) = meta_utf8 @ r"
    by (simp only: replace_meta_idem)
  then show ?thesis
    using replace_meta_idem [of d] replace_meta_no_match [of d] by blast
qed

theorem C7_rewrite_idempotent_witness:
  "\<not> meta_occurs ''<title>a</title>''
   \<and> replace_meta ''<title>a</title>'' = ''<title>a</title>''
   \<and> replace_meta (replace_meta ''<meta charset=sjis>'') = replace_meta ''<meta charset=sjis>''"
proof -
  have "\<not> meta_occurs ''<title>a</title>''"
    by (simp add: match_meta_def startsWith_ci_def lower_ascii_def)
  then show ?thesis
    using C7_rewrite_idempotent [of "''<title>a</title>''"]
      C7_rewrite_idempotent [of "''<meta charset=sjis>''"]
    by blast
qed

text \<open>
  C7 as stated fails: a document that declares UTF-8 without the quotes is not left as it
  is, the declaration is rewritten to the canonical spelling; and a meta element that
  declares no charset, but mentions \<^verbatim>\<open>charset=\<close> in its content, is replaced as well.
\<close>

theorem C7_counterexample:
  "replace_meta ''<meta charset=utf-8>'' \<noteq> ''<meta charset=utf-8>''
   \<and> replace_meta ''<meta name=description content=about-charset=x>''
       \<noteq> ''<meta name=description content=about-charset=x>''"
  by (simp add: match_meta_def startsWith_ci_def lower_ascii_def meta_utf8_def)

text \<open>
  C8. After \<^verbatim>\<open>memCache.set(k, v); await redis.set(k, v, 'EX', ttl)\<close> has gone through, the
  lookup \<^verbatim>\<open>memCache.get(k) || await redis.get(k)\<close> at the same clock reading gives \<open>v\<close>
  (for the empty string through Redis, which must answer).
\<close>

theorem C8_cache_round_trip:
  assumes "cache_set e1 k v ttl w = (Inr (), w1)"
    and "now_lookup e2 = now_store e1"
    and "v = [] \<Longrightarrow> redis_get_fault e2 k = None"
  shows "fst (cache_get e2 k w1) = Inr (Some v)"
proof -
  note st = cache_set_stores [OF assms(1)]
  show ?thesis
    using st assms(2,3)
    by (cases "v = []")
       (simp_all add: cache_get_def bind_def memCache_get_def redis_get_def return_def truthy_def Let_def)
qed

theorem C8_cache_round_trip_witness:
  "cache_set example_env ''pp:k'' [] 30 empty_world
     = (Inr (), \<lparr>memCache = [(''pp:k'', [], 1500)], redis = [''pp:k'' \<mapsto> ([], 31500)], sent = [], observed = [],
          calls = [MemSet ''pp:k'', RedisSet ''pp:k'' 30], headers_set = []\<rparr>)
   \<and> now_lookup (example_env\<lparr>now_lookup := 1500\<rparr>) = now_store example_env
   \<and> redis_get_fault (example_env\<lparr>now_lookup := 1500\<rparr>) ''pp:k'' = None
   \<and> fst (cache_get (example_env\<lparr>now_lookup := 1500\<rparr>) ''pp:k''
        (snd (cache_set example_env ''pp:k'' [] 30 empty_world))) = Inr (Some [])"
proof -
  have 1: "cache_set example_env ''pp:k'' [] 30 empty_world
     = (Inr (), \<lparr>memCache = [(''pp:k'', [], 1500)], redis = [''pp:k'' \<mapsto> ([], 31500)], sent = [], observed = [],
          calls = [MemSet ''pp:k'', RedisSet ''pp:k'' 30], headers_set = []\<rparr>)"
    by (simp add: cache_set_def memCache_set_def redis_set_def bind_def example_defs lru_max_def Let_def)
  have 2: "now_lookup (example_env\<lparr>now_lookup := 1500\<rparr>) = now_store example_env"
    by (simp add: example_env_def)
  have 3: "redis_get_fault (example_env\<lparr>now_lookup := 1500\<rparr>) ''pp:k'' = None"
    by (simp add: example_env_def no_fault_def)
  from C8_cache_round_trip [OF 1 2 3] 1 2 3 show ?thesis by simp
qed

text \<open>
  C9. On a path that begins with \<^verbatim>\<open>/proxy/\<close>, index.js (a regular expression replace)
  and server.js (\<^verbatim>\<open>slice(7)\<close>) derive the same target: the rest of the path after the
  prefix, with \<^verbatim>\<open>https://\<close> in front.
\<close>

theorem C9_same_proxy_target:
  assumes "startsWith url ''/proxy/''"
  shows "\<exists>rest. url = ''/proxy/'' @ rest
           \<and> proxy_target_replace url = ''https://'' @ rest
           \<and> proxy_target_slice url = ''https://'' @ rest"
proof -
  have l: "length ''/proxy/'' = 7" by simp
  from assms have "take 7 url = ''/proxy/''" unfolding startsWith_def l .
  then have "url = ''/proxy/'' @ drop 7 url" by (metis append_take_drop_id)
  then show ?thesis
    using assms by (auto simp: proxy_target_replace_def proxy_target_slice_def)
qed

theorem C9_same_proxy_target_witness:
  "startsWith ''/proxy/example.com/page'' ''/proxy/''
   \<and> proxy_target_replace ''/proxy/example.com/page'' = ''https://example.com/page''
   \<and> proxy_target_slice ''/proxy/example.com/page'' = ''https://example.com/page''"
proof -
  have h: "startsWith ''/proxy/example.com/page'' ''/proxy/''" by (simp add: startsWith_def)
  from C9_same_proxy_target [OF h] h show ?thesis by auto
qed

text \<open>
  C10. In a state where both tiers hold the empty string for the key of a render or
  decode-proxy request (and Redis answers), the request invokes the backend once more, and a
  response with status 200 carries what the backend has just returned; a store of the empty
  string leaves both tiers in that state again.
\<close>

theorem C10_empty_body_is_a_miss:
  assumes "memCache_value w key = Some []" and "redis_value w key = Some []"
    and "redis_get_fault e key = None"
  shows "(pipeline_index e req = Some (key, ttl, work) \<longrightarrow>
            length (backend_calls (index_server e req res (fresh w))) = 1
            \<and> (\<forall>hs b. sent (index_server e req res (fresh w)) = [Ended 200 hs b]
                  \<longrightarrow> fst (work w0) = Inr (gunzip b)))
       \<and> (pipeline_server e req = Some (key, ttl, work) \<longrightarrow>
            length (backend_calls (snd (createBareHandler e req res (fresh w)))) = 1
            \<and> (\<forall>hs b. sent (snd (createBareHandler e req res (fresh w))) = [Ended 200 hs b]
                  \<longrightarrow> fst (work w0) = Inr (gunzip b)))
       \<and> (\<forall>e0 t w1 w2. cache_set e0 key [] t w1 = (Inr (), w2)
            \<longrightarrow> memCache_value w2 key = Some [] \<and> redis_value w2 key = Some [])"
proof (intro conjI impI allI)
  have m: "memCache_value (fresh w) key = None \<or> memCache_value (fresh w) key = Some []"
    using assms(1) by (simp add: memCache_value_def fresh_def)
  have r: "redis_value (fresh w) key = None \<or> redis_value (fresh w) key = Some []"
    using assms(2) by (simp add: redis_value_def fresh_def)
  {
    assume p: "pipeline_index e req = Some (key, ttl, work)"
    obtain r0 c res0 w1 where c: "is_backend_call c"
      and work: "\<And>w0. work w0 = (r0, w0\<lparr>calls := calls w0 @ [c]\<rparr>)"
      and run: "cached e key ttl work (fresh w) = (res0, w1)"
      and "memCache (index_server e req res (fresh w)) = memCache w1"
      and "redis (index_server e req res (fresh w)) = redis w1"
      and calls: "calls (index_server e req res (fresh w)) = calls w1"
      and sent: "sent (index_server e req res (fresh w)) = [answered_index res ttl res0]"
      and "observed (index_server e req res (fresh w)) = [(handler_index e req, answered_code res res0)]"
      by (rule index_run [OF p, of w res]) blast
    note ce = cached_empty [OF work c m r assms(3) run]
    from ce(1) calls show "length (backend_calls (index_server e req res (fresh w))) = 1"
      by (simp add: backend_calls_def fresh_def)
    fix hs b
    assume "sent (index_server e req res (fresh w)) = [Ended 200 hs b]"
    with sent have "answered_index res ttl res0 = Ended 200 hs b" by simp
    from answered_index_200 [OF this] have "res0 = Inr (gunzip b)" by blast
    then have "r0 = Inr (gunzip b)" using ce(2) [of "gunzip b"] by simp
    then show "fst (work w0) = Inr (gunzip b)" by (simp add: work)
  }
  {
    assume p: "pipeline_server e req = Some (key, ttl, work)"
    obtain r0 c res0 w1 where c: "is_backend_call c"
      and work: "\<And>w0. work w0 = (r0, w0\<lparr>calls := calls w0 @ [c]\<rparr>)"
      and run: "cached e key ttl work (fresh w) = (res0, w1)"
      and bad: "\<And>err. res0 = Inl err \<Longrightarrow> createBareHandler e req res (fresh w) = (Inl err, w1)"
      and good: "\<And>v. res0 = Inr v \<Longrightarrow> fst (createBareHandler e req res (fresh w)) = Inr ()
          \<and> memCache (snd (createBareHandler e req res (fresh w))) = memCache w1
          \<and> redis (snd (createBareHandler e req res (fresh w))) = redis w1
          \<and> calls (snd (createBareHandler e req res (fresh w))) = calls w1
          \<and> sent (snd (createBareHandler e req res (fresh w))) = [encoded (gzip_server res) v text_html ttl]
          \<and> observed (snd (createBareHandler e req res (fresh w))) = [(handler_server e req, Status 200)]"
      by (rule server_run [OF p, of w res]) blast
    note ce = cached_empty [OF work c m r assms(3) run]
    note cf = cached_frame [OF work run]
    have calls: "calls (snd (createBareHandler e req res (fresh w))) = calls w1"
      using bad good by (cases res0) auto
    from ce(1) calls show "length (backend_calls (snd (createBareHandler e req res (fresh w)))) = 1"
      by (simp add: backend_calls_def fresh_def)
    fix hs b
    assume s: "sent (snd (createBareHandler e req res (fresh w))) = [Ended 200 hs b]"
    have "\<exists>v. res0 = Inr v"
    proof (cases res0)
      case (Inl err)
      with bad cf s show ?thesis by (simp add: fresh_def)
    qed simp
    then obtain v where v: "res0 = Inr v" by blast
    with good s have "encoded (gzip_server res) v text_html ttl = Ended 200 hs b" by simp
    then have "r0 = Inr (gunzip b)" using ce(2) [of v] v encoded_body [of "gzip_server res" v text_html ttl 200 hs b] by simp
    then show "fst (work w0) = Inr (gunzip b)" by (simp add: work)
  }
  fix e0 t w1 w2
  assume "cache_set e0 key [] t w1 = (Inr (), w2)"
  note st = cache_set_stores [OF this]
  from st show "memCache_value w2 key = Some []" by (simp add: memCache_value_def)
  from st show "redis_value w2 key = Some []" by (simp add: redis_value_def)
qed

theorem C10_empty_body_is_a_miss_witness:
  "memCache_value after_empty ''px:https://example.com/empty'' = Some []
   \<and> redis_value after_empty ''px:https://example.com/empty'' = Some []
   \<and> redis_get_fault later_env ''px:https://example.com/empty'' = None
   \<and> length (backend_calls (index_server later_env (get ''/proxy/example.com/empty'') plain_res (fresh after_empty))) = 1
   \<and> length (backend_calls (snd (createBareHandler later_env (get ''/proxy/example.com/empty'') plain_res (fresh after_empty)))) = 1"
proof -
  let ?k = "''px:https://example.com/empty''"
  have 1: "memCache_value after_empty ?k = Some []"
    by (simp add: after_empty_eq memCache_value_def)
  have 2: "redis_value after_empty ?k = Some []"
    by (simp add: after_empty_eq redis_value_def)
  have 3: "redis_get_fault later_env ?k = None"
    by (simp add: later_env_def example_env_def no_fault_def)
  have 4: "pipeline_index later_env (get ''/proxy/example.com/empty'')
      = Some (?k, 60, fetch_text later_env ''https://example.com/empty'')"
    by (simp add: pipeline_index_def get_def url_of_def startsWith_def proxy_target_replace_def)
  have 5: "pipeline_server later_env (get ''/proxy/example.com/empty'')
      = Some (?k, 60, fetch_text later_env ''https://example.com/empty'')"
    by (simp add: pipeline_server_def get_def url_of_def startsWith_def proxy_target_slice_def)
  from C10_empty_body_is_a_miss [OF 1 2 3, of "get ''/proxy/example.com/empty''" 60
      "fetch_text later_env ''https://example.com/empty''" plain_res empty_world] 4 5 1 2 3
  show ?thesis by blast
qed

end
